theory Spec2Isabelle
  imports Complex_Main
begin

section \<open>Computations with state and exceptions\<close>

text \<open>
  The Python methods mutate an object (or closure variables) and may raise. A method is
  modelled as a function from the state to a result and the new state. The result is
  either a returned value or a raised exception; \<open>try\<close>/\<open>except\<close> and
  \<open>try\<close>/\<open>finally\<close> are the combinators below. Two kinds of exception are
  told apart, as the source's handlers do: the timeout of \<open>future.result\<close> and any
  other \<open>Exception\<close>. Clock readings (\<open>time.time()\<close>) are real numbers.

  The supervisor loops run until they are told to stop, so a run is driven by a finite
  list of inputs, one per loop iteration. \<open>Unfinished\<close> is the result of a loop that
  is still running when its inputs are used up: no handler catches it and no
  \<open>finally\<close> block runs for it, since control has not left the loop.
\<close>

datatype exn = TimeoutError | OtherError

datatype 'a result = Return 'a | Raise exn | Unfinished

type_synonym ('s, 'a) prog = "'s \<Rightarrow> 'a result \<times> 's"

definition ret :: "'a \<Rightarrow> ('s, 'a) prog" where
  "ret v = (\<lambda>s. (Return v, s))"

definition throw :: "exn \<Rightarrow> ('s, 'a) prog" where
  "throw e = (\<lambda>s. (Raise e, s))"

definition get :: "('s, 's) prog" where
  "get = (\<lambda>s. (Return s, s))"

definition modify :: "('s \<Rightarrow> 's) \<Rightarrow> ('s, unit) prog" where
  "modify f = (\<lambda>s. (Return (), f s))"

definition bnd :: "('s, 'a) prog \<Rightarrow> ('a \<Rightarrow> ('s, 'b) prog) \<Rightarrow> ('s, 'b) prog" where
  "bnd p k =
     (\<lambda>s. case p s of
        (Return v, s') \<Rightarrow> k v s'
      | (Raise e, s') \<Rightarrow> (Raise e, s')
      | (Unfinished, s') \<Rightarrow> (Unfinished, s'))"

definition seq :: "('s, unit) prog \<Rightarrow> ('s, 'b) prog \<Rightarrow> ('s, 'b) prog" where
  "seq p q = bnd p (\<lambda>_. q)"

definition try_except :: "('s, 'a) prog \<Rightarrow> (exn \<Rightarrow> ('s, 'a) prog) \<Rightarrow> ('s, 'a) prog" where
  "try_except p handler =
     (\<lambda>s. case p s of
        (Return v, s') \<Rightarrow> (Return v, s')
      | (Raise e, s') \<Rightarrow> handler e s'
      | (Unfinished, s') \<Rightarrow> (Unfinished, s'))"

definition try_finally :: "('s, 'a) prog \<Rightarrow> ('s, unit) prog \<Rightarrow> ('s, 'a) prog" where
  "try_finally p final =
     (\<lambda>s. case p s of
        (Unfinished, s') \<Rightarrow> (Unfinished, s')
      | (r, s') \<Rightarrow>
          (case final s' of
             (Return _, s'') \<Rightarrow> (r, s'')
           | (Raise e, s'') \<Rightarrow> (Raise e, s'')
           | (Unfinished, s'') \<Rightarrow> (Unfinished, s'')))"

definition only_if :: "bool \<Rightarrow> ('s, unit) prog \<Rightarrow> ('s, unit) prog" where
  "only_if b p = (if b then p else ret ())"

section \<open>The engine and the history of external effects\<close>

text \<open>
  The speech engine, the thread pool, the clock and the logger are outside the
  repository. Every call into them is recorded, in order, in a ghost history, and how
  each call answers (returns, raises, times out) is an input of the model.
  \<open>Log\<close> carries the fixed part of a \<open>logger.warning\<close>/\<open>logger.error\<close> message
  (in the thread patch: of a warning or failure \<open>print\<close>).
\<close>

datatype engine = AudioToTextRecorder

datatype action =
    Construct
  | Abort
  | ClearAudioQueue
  | Shutdown
  | Submit
  | Cancel
  | ExecutorShutdown bool
  | RecorderReady
  | Sleep real
  | Log string

datatype unit_outcome = Completed | TimedOut | Raised

section \<open>enhanced\_recorder.py: class RecorderManager\<close>

text \<open>
  The fields of \<open>RecorderManager\<close> that the supervision logic reads or writes. Each
  entry of \<open>history\<close> pairs an external effect with the values the counters had when it
  happened.
\<close>

record snapshot =
  seen_failures :: int
  seen_processing :: bool
  seen_activity :: real

record manager =
  recorder :: "engine option"
  stop_recorder :: bool
  transcription_timeout :: real
  health_check_interval :: real
  max_consecutive_failures :: int
  consecutive_failures :: int
  last_activity_time :: real
  is_processing :: bool
  history :: "(action \<times> snapshot) list"

definition observe :: "manager \<Rightarrow> snapshot" where
  "observe m = \<lparr>seen_failures = consecutive_failures m,
                seen_processing = is_processing m,
                seen_activity = last_activity_time m\<rparr>"

definition emit :: "action \<Rightarrow> (manager, unit) prog" where
  "emit a = modify (\<lambda>m. m\<lparr>history := history m @ [(a, observe m)]\<rparr>)"

text \<open>A call into the engine or the pool: recorded, then it returns or raises.\<close>

definition call :: "action \<Rightarrow> bool \<Rightarrow> (manager, unit) prog" where
  "call a raises = seq (emit a) (if raises then throw OtherError else ret ())"

text \<open>\<open>__init__\<close> (lines 15-30), with the clock reading of line 28.\<close>

definition init_manager :: "real \<Rightarrow> manager" where
  "init_manager now =
     \<lparr>recorder = None, stop_recorder = False, transcription_timeout = 30,
      health_check_interval = 10, max_consecutive_failures = 3,
      consecutive_failures = 0, last_activity_time = now, is_processing = False,
      history = []\<rparr>"

text \<open>
  \<open>initialize_recorder\<close> (lines 32-47). \<open>construct_raises\<close>: the \<open>try\<close> block
  (import, prints, constructor) raises before the assignment to \<open>self.recorder\<close>.
\<close>

definition initialize_recorder :: "bool \<Rightarrow> (manager, bool) prog" where
  "initialize_recorder construct_raises =
     try_except
       (seq (call Construct construct_raises)
       (seq (modify (\<lambda>m. m\<lparr>recorder := Some AudioToTextRecorder\<rparr>))
       (seq (modify (\<lambda>m. m\<lparr>consecutive_failures := 0\<rparr>))
            (ret True))))
       (\<lambda>e. seq (emit (Log ''Failed to initialize recorder''))
            (seq (modify (\<lambda>m. m\<lparr>consecutive_failures := consecutive_failures m + 1\<rparr>))
                 (ret False)))"

text \<open>
  Lines 56-57: \<open>self.executor.submit(self.recorder.text, f)\<close> and
  \<open>future.result(timeout=...)\<close>. Reading \<open>self.recorder.text\<close> raises
  AttributeError while \<open>self.recorder\<close> is \<open>None\<close>; otherwise the unit of work is
  submitted and the wait returns, times out, or re-raises what the engine raised.
\<close>

definition submit_and_wait :: "unit_outcome \<Rightarrow> (manager, unit) prog" where
  "submit_and_wait outcome =
     bnd get (\<lambda>m. case recorder m of
        None \<Rightarrow> throw OtherError
      | Some _ \<Rightarrow>
          seq (emit Submit)
            (case outcome of
               Completed \<Rightarrow> ret ()
             | TimedOut \<Rightarrow> throw TimeoutError
             | Raised \<Rightarrow> throw OtherError))"

text \<open>\<open>process_text_with_timeout\<close> (lines 49-71); \<open>now\<close> is the clock reading of line 53.\<close>

definition process_text_with_timeout :: "real \<Rightarrow> unit_outcome \<Rightarrow> (manager, bool) prog" where
  "process_text_with_timeout now outcome =
     try_finally
       (try_except
          (seq (modify (\<lambda>m. m\<lparr>is_processing := True\<rparr>))
          (seq (modify (\<lambda>m. m\<lparr>last_activity_time := now\<rparr>))
          (seq (submit_and_wait outcome)
          (seq (modify (\<lambda>m. m\<lparr>consecutive_failures := 0\<rparr>))
               (ret True)))))
          (\<lambda>e. case e of
             TimeoutError \<Rightarrow>
               seq (emit (Log ''Transcription timed out''))
              (seq (modify (\<lambda>m. m\<lparr>consecutive_failures := consecutive_failures m + 1\<rparr>))
                   (ret False))
           | OtherError \<Rightarrow>
               seq (emit (Log ''Transcription failed''))
              (seq (modify (\<lambda>m. m\<lparr>consecutive_failures := consecutive_failures m + 1\<rparr>))
                   (ret False))))
       (modify (\<lambda>m. m\<lparr>is_processing := False\<rparr>))"

text \<open>How the engine answers during one call of \<open>recover_recorder\<close>.\<close>

record recovery_env =
  abort_raises :: bool
  clear_raises :: bool
  shutdown_raises :: bool
  construct_raises :: bool

text \<open>\<open>recover_recorder\<close> (lines 73-92).\<close>

definition recover_recorder :: "recovery_env \<Rightarrow> (manager, bool) prog" where
  "recover_recorder env =
     seq (emit (Log ''Attempting to recover recorder...''))
     (try_except
        (seq (bnd get (\<lambda>m. only_if (recorder m \<noteq> None)
                (seq (call Abort (abort_raises env))
                (seq (call ClearAudioQueue (clear_raises env))
                (seq (emit (Sleep 1.0))
                (seq (call Shutdown (shutdown_raises env))
                     (emit (Sleep 2.0))))))))
             (initialize_recorder (construct_raises env)))
        (\<lambda>e. seq (emit (Log ''Recovery failed'')) (ret False)))"

text \<open>\<open>health_check\<close> (lines 94-108); \<open>current_time\<close> is the clock reading of line 96.\<close>

definition health_check :: "real \<Rightarrow> (manager, bool) prog" where
  "health_check current_time =
     bnd get (\<lambda>m.
       if is_processing m \<and> current_time - last_activity_time m > transcription_timeout m
       then seq (emit (Log ''Recorder appears to be stuck'')) (ret False)
       else if consecutive_failures m \<ge> max_consecutive_failures m
       then seq (emit (Log ''Too many consecutive failures'')) (ret False)
       else ret True)"

text \<open>How the engine and the pool answer during \<open>cleanup\<close>.\<close>

record cleanup_env =
  final_shutdown_raises :: bool
  executor_shutdown_raises :: bool

text \<open>\<open>cleanup\<close> (lines 171-178).\<close>

definition cleanup :: "cleanup_env \<Rightarrow> (manager, unit) prog" where
  "cleanup env =
     try_except
       (seq (bnd get (\<lambda>m.
               only_if (recorder m \<noteq> None) (call Shutdown (final_shutdown_raises env))))
            (call (ExecutorShutdown True) (executor_shutdown_raises env)))
       (\<lambda>e. emit (Log ''Cleanup error''))"

text \<open>\<open>stop\<close> (lines 180-182).\<close>

definition stop :: "(manager, unit) prog" where
  "stop = modify (\<lambda>m. m\<lparr>stop_recorder := True\<rparr>)"

text \<open>
  What the surroundings do during one iteration of the loop of \<open>run\<close>:
  whether another thread has called \<open>stop\<close> before the loop condition is read, the
  clock readings of lines 142, 96 and 53, how the unit of work ends, and how the engine
  answers to the recovery of line 148 and to the recovery of line 159.
\<close>

record cycle_env =
  stop_called :: bool
  loop_time :: real
  health_time :: real
  health_recovery :: recovery_env
  submit_time :: real
  unit_result :: unit_outcome
  failure_recovery :: recovery_env

text \<open>
  How an iteration ends: \<open>Break\<close>, or on to the next iteration with the value of the
  local variable \<open>last_health_check\<close>.
\<close>

datatype flow = Break | Next real

text \<open>Lines 144-151: the periodic health check.\<close>

definition health_phase :: "cycle_env \<Rightarrow> real \<Rightarrow> (manager, flow) prog" where
  "health_phase e last_health_check =
     bnd get (\<lambda>m.
       if loop_time e - last_health_check > health_check_interval m
       then bnd (health_check (health_time e)) (\<lambda>healthy.
              if \<not> healthy
              then seq (emit (Log ''Health check failed, attempting recovery...''))
                  (bnd (recover_recorder (health_recovery e)) (\<lambda>recovered.
                     if \<not> recovered
                     then seq (emit (Log ''Recovery failed, stopping recorder'')) (ret Break)
                     else ret (Next (loop_time e))))
              else ret (Next (loop_time e)))
       else ret (Next last_health_check))"

text \<open>Lines 153-161: one unit of work, and the recovery once the threshold is reached.\<close>

definition unit_phase :: "cycle_env \<Rightarrow> real \<Rightarrow> (manager, flow) prog" where
  "unit_phase e last_health_check =
     bnd (process_text_with_timeout (submit_time e) (unit_result e)) (\<lambda>ok.
       if \<not> ok
       then seq (emit (Log ''Text processing failed or timed out''))
           (bnd get (\<lambda>m.
              if consecutive_failures m \<ge> max_consecutive_failures m
              then bnd (recover_recorder (failure_recovery e)) (\<lambda>recovered.
                     if \<not> recovered
                     then seq (emit (Log ''Unable to recover, stopping recorder'')) (ret Break)
                     else ret (Next last_health_check))
              else ret (Next last_health_check)))
       else ret (Next last_health_check))"

text \<open>The body of the \<open>while\<close> loop (lines 142-164).\<close>

definition loop_body :: "cycle_env \<Rightarrow> real \<Rightarrow> (manager, flow) prog" where
  "loop_body e last_health_check =
     bnd (health_phase e last_health_check) (\<lambda>f.
       case f of
         Break \<Rightarrow> ret Break
       | Next checked \<Rightarrow>
           bnd (unit_phase e checked) (\<lambda>f'.
             case f' of
               Break \<Rightarrow> ret Break
             | Next checked' \<Rightarrow> seq (emit (Sleep 0.1)) (ret (Next checked'))))"

text \<open>
  How \<open>run\<close> ends (the Python method returns \<open>None\<close> each time): the stop flag
  was seen, a recovery failed, or the first initialization failed.
\<close>

datatype exit = Stopped | Failed | InitFailed

text \<open>The \<open>while not self.stop_recorder\<close> loop (lines 141-164).\<close>

fun run_loop :: "cycle_env list \<Rightarrow> real \<Rightarrow> (manager, exit) prog" where
  "run_loop [] last_health_check = (\<lambda>m. (Unfinished, m))"
| "run_loop (e # es) last_health_check =
     seq (only_if (stop_called e) stop)
       (bnd get (\<lambda>m.
          if stop_recorder m then ret Stopped
          else bnd (loop_body e last_health_check) (\<lambda>f.
                 case f of
                   Break \<Rightarrow> ret Failed
                 | Next checked \<Rightarrow> run_loop es checked)))"

text \<open>
  \<open>run\<close> (lines 131-169). \<open>KeyboardInterrupt\<close> is not modelled: Python delivers
  it to the main thread only, and \<open>run\<close> is the target of a thread of its own.
\<close>

record run_env =
  first_construct_raises :: bool
  start_time :: real
  cycles :: "cycle_env list"
  at_cleanup :: cleanup_env

definition run :: "run_env \<Rightarrow> (manager, exit) prog" where
  "run env =
     bnd (initialize_recorder (first_construct_raises env)) (\<lambda>ok.
       if \<not> ok
       then seq (emit (Log ''Failed to initialize recorder'')) (ret InitFailed)
       else try_finally
              (run_loop (cycles env) (start_time env))
              (cleanup (at_cleanup env)))"

section \<open>language\_detector.py: class LanguageDetector\<close>

text \<open>
  The SpeechBrain model is outside the repository. \<open>lang_id\<close> is the loaded model
  or \<open>None\<close>; what lines 56-67 compute from the audio (conversion, tensor,
  \<open>classify_batch\<close>, the language code and the confidence taken from the prediction)
  is the parameter \<open>classify\<close>, which yields a code and a confidence or fails with an
  exception. Confidences are Python floats, modelled as real numbers.
\<close>

datatype model = LanguageIdentification

datatype 'a attempt = Succeeds 'a | Fails

definition external :: "'a attempt \<Rightarrow> ('s, 'a) prog" where
  "external a = (case a of Succeeds v \<Rightarrow> ret v | Fails \<Rightarrow> throw OtherError)"

record detector =
  lang_id :: "model option"
  last_confidence :: real

text \<open>The dictionary of lines 71-77 and \<open>dict.get(key, default)\<close>.\<close>

definition lang_mapping :: "string \<rightharpoonup> string" where
  "lang_mapping = [''it'' \<mapsto> ''it'', ''en'' \<mapsto> ''en'', ''es'' \<mapsto> ''es'',
                   ''fr'' \<mapsto> ''fr'', ''de'' \<mapsto> ''de'']"

definition dict_get :: "('k \<rightharpoonup> 'v) \<Rightarrow> 'k \<Rightarrow> 'v \<Rightarrow> 'v" where
  "dict_get d k default_value = (case d k of None \<Rightarrow> default_value | Some v \<Rightarrow> v)"

text \<open>
  \<open>detect_language\<close> (lines 40-85); \<open>speechbrain_available\<close> is the module's
  flag \<open>SPEECHBRAIN_AVAILABLE\<close>.
\<close>

definition detect_language ::
  "bool \<Rightarrow> ('audio \<Rightarrow> (string \<times> real) attempt) \<Rightarrow> 'audio
     \<Rightarrow> (detector, string option \<times> real) prog" where
  "detect_language speechbrain_available classify audio_data =
     bnd get (\<lambda>d.
       if lang_id d = None \<or> \<not> speechbrain_available then ret (None, 0.0)
       else try_except
              (bnd (external (classify audio_data)) (\<lambda>(lang_code, confidence).
               seq (modify (\<lambda>d. d\<lparr>last_confidence := confidence\<rparr>))
                   (ret (Some (dict_get lang_mapping lang_code lang_code), confidence))))
              (\<lambda>e. ret (None, 0.0)))"

text \<open>
  \<open>validate_transcription_language\<close> (lines 87-112). In
  \<open>confidence_threshold and ...\<close> a threshold of zero counts as false.
\<close>

definition validate_transcription_language ::
  "string \<Rightarrow> string option \<Rightarrow> string option \<Rightarrow> real \<Rightarrow> (detector, bool) prog" where
  "validate_transcription_language text expected_language detected_language
       confidence_threshold =
     bnd get (\<lambda>d.
       if detected_language = None then ret True
       else if confidence_threshold \<noteq> 0 \<and> last_confidence d < confidence_threshold
       then ret True
       else if detected_language \<noteq> expected_language then ret False
       else ret True)"

section \<open>recorder\_thread\_patch.py: enhanced\_recorder\_thread\<close>

text \<open>
  The variables of the closure \<open>enhanced_recorder_thread\<close>: the module globals
  \<open>recorder\<close> and \<open>stop_recorder\<close> and the locals \<open>consecutive_failures\<close>
  and \<open>last_activity_time\<close>. Names that \<open>RecorderManager\<close> also uses carry
  the prefix \<open>p_\<close> or \<open>patch_\<close> here.

  Line 27 declares \<open>nonlocal recorder\<close> inside a function whose enclosing function
  declares \<open>recorder\<close> global (line 16); Python rejects that when it compiles the
  module. The model reads \<open>recorder\<close> as the module global throughout, as lines 16,
  75, 89 and 164 do.
\<close>

record thread_vars =
  p_recorder :: "engine option"
  p_stop_recorder :: bool
  p_consecutive_failures :: int
  p_last_activity_time :: real
  p_history :: "action list"

text \<open>Lines 19-22 and line 28.\<close>

definition patch_transcription_timeout :: real where
  "patch_transcription_timeout = 20.0"

definition patch_max_consecutive_failures :: int where
  "patch_max_consecutive_failures = 3"

definition max_retries :: nat where
  "max_retries = 3"

definition thread_start :: "engine option \<Rightarrow> bool \<Rightarrow> real \<Rightarrow> thread_vars" where
  "thread_start global_recorder global_stop now =
     \<lparr>p_recorder = global_recorder, p_stop_recorder = global_stop,
      p_consecutive_failures = 0, p_last_activity_time = now, p_history = []\<rparr>"

definition p_emit :: "action \<Rightarrow> (thread_vars, unit) prog" where
  "p_emit a = modify (\<lambda>v. v\<lparr>p_history := p_history v @ [a]\<rparr>)"

definition p_call :: "action \<Rightarrow> bool \<Rightarrow> (thread_vars, unit) prog" where
  "p_call a raises = seq (p_emit a) (if raises then throw OtherError else ret ())"

text \<open>
  \<open>initialize_recorder_with_retry\<close> (lines 25-39): the \<open>for\<close> loop over
  \<open>range(max_retries)\<close>; \<open>raises attempt\<close> tells whether the constructor raises
  at that attempt.
\<close>

fun init_attempts :: "(nat \<Rightarrow> bool) \<Rightarrow> nat list \<Rightarrow> (thread_vars, bool) prog" where
  "init_attempts raises [] = ret False"
| "init_attempts raises (attempt # rest) =
     bnd (try_except
            (seq (p_call Construct (raises attempt))
            (seq (modify (\<lambda>v. v\<lparr>p_recorder := Some AudioToTextRecorder\<rparr>))
                 (ret True)))
            (\<lambda>e. seq (p_emit (Log ''Failed to initialize recorder''))
                (seq (only_if (attempt < max_retries - 1) (p_emit (Sleep 2)))
                     (ret False))))
       (\<lambda>initialized. if initialized then ret True else init_attempts raises rest)"

definition initialize_recorder_with_retry :: "(nat \<Rightarrow> bool) \<Rightarrow> (thread_vars, bool) prog" where
  "initialize_recorder_with_retry raises = init_attempts raises [0..<max_retries]"

text \<open>
  \<open>process_text\<close> (lines 41-70), the callback the engine calls with a finished
  sentence: whether preprocessing or delivery raises, and the clock reading of line 66.
\<close>

record callback_env =
  delivery_raises :: bool
  delivery_time :: real

definition patch_process_text :: "callback_env \<Rightarrow> (thread_vars, unit) prog" where
  "patch_process_text c =
     try_except
       (seq (external (if delivery_raises c then Fails else Succeeds ()))
       (seq (modify (\<lambda>v. v\<lparr>p_consecutive_failures := 0\<rparr>))
            (modify (\<lambda>v. v\<lparr>p_last_activity_time := delivery_time c\<rparr>))))
       (\<lambda>e. seq (p_emit (Log ''Error processing text''))
                (modify (\<lambda>v. v\<lparr>p_consecutive_failures := p_consecutive_failures v + 1\<rparr>)))"

text \<open>
  One unit of work: the callbacks the engine makes before the wait of line 136 is over,
  whether \<open>recorder.text\<close> then raises, and whether the wait times out instead (the
  worker is then still inside \<open>recorder.text\<close>; what it does later, concurrently
  with the loop, is not modelled).
\<close>

record work_env =
  callbacks :: "callback_env list"
  text_raises :: bool
  times_out :: bool

fun run_callbacks :: "callback_env list \<Rightarrow> (thread_vars, unit) prog" where
  "run_callbacks [] = ret ()"
| "run_callbacks (c # cs) = seq (patch_process_text c) (run_callbacks cs)"

definition recorder_text :: "work_env \<Rightarrow> (thread_vars, unit) prog" where
  "recorder_text w =
     seq (run_callbacks (callbacks w)) (if text_raises w then throw OtherError else ret ())"

text \<open>\<open>transcribe_with_timeout\<close> (lines 72-81).\<close>

definition transcribe_with_timeout :: "work_env \<Rightarrow> (thread_vars, bool) prog" where
  "transcribe_with_timeout w =
     try_except
       (bnd get (\<lambda>v.
          if p_recorder v \<noteq> None then seq (recorder_text w) (ret True) else ret False))
       (\<lambda>e. seq (p_emit (Log ''Transcription error'')) (ret False))"

text \<open>
  Lines 135-136: \<open>executor.submit(transcribe_with_timeout)\<close> and
  \<open>future.result(timeout=transcription_timeout)\<close>.
\<close>

definition submit_transcription :: "work_env \<Rightarrow> (thread_vars, bool) prog" where
  "submit_transcription w =
     seq (p_emit Submit)
       (bnd get (\<lambda>v.
          if times_out w \<and> p_recorder v \<noteq> None
          then seq (run_callbacks (callbacks w)) (throw TimeoutError)
          else transcribe_with_timeout w))"

text \<open>How the engine answers during one call of the patch's \<open>recover_recorder\<close>.\<close>

record retry_env =
  p_abort_raises :: bool
  p_clear_raises :: bool
  attempt_raises :: "nat \<Rightarrow> bool"

text \<open>\<open>recover_recorder\<close> (lines 83-99).\<close>

definition patch_recover_recorder :: "retry_env \<Rightarrow> (thread_vars, bool) prog" where
  "patch_recover_recorder env =
     seq (p_emit (Log ''Attempting to recover recorder...''))
     (try_except
        (seq (bnd get (\<lambda>v. only_if (p_recorder v \<noteq> None)
                (seq (p_call Abort (p_abort_raises env))
                (seq (p_call ClearAudioQueue (p_clear_raises env))
                     (p_emit (Sleep 1.0))))))
             (initialize_recorder_with_retry (attempt_raises env)))
        (\<lambda>e. seq (p_emit (Log ''Recovery failed''))
            (seq (modify (\<lambda>v. v\<lparr>p_consecutive_failures := p_consecutive_failures v + 1\<rparr>))
                 (ret False))))"

text \<open>
  What the surroundings do during one iteration of the loop of lines 114-157: whether
  \<open>stop_recorder\<close> has been set, the clock reading of line 115, the unit of work, and
  how the engine answers to the one recovery the iteration may start.
\<close>

record patch_cycle_env =
  p_stop_called :: bool
  current_time :: real
  work :: work_env
  on_recovery :: retry_env

text \<open>How an iteration of the patch's loop ends: \<open>break\<close>, or on to the next one.\<close>

datatype jump = Leave | Again

text \<open>\<open>if not recover_recorder(): print(...); break\<close>, at lines 120, 128 and 152.\<close>

definition recover_or_leave :: "retry_env \<Rightarrow> string \<Rightarrow> (thread_vars, jump) prog" where
  "recover_or_leave env message =
     bnd (patch_recover_recorder env) (\<lambda>recovered.
       if \<not> recovered then seq (p_emit (Log message)) (ret Leave) else ret Again)"

text \<open>The body of the \<open>while\<close> loop (lines 115-157).\<close>

definition patch_loop_body :: "patch_cycle_env \<Rightarrow> (thread_vars, jump) prog" where
  "patch_loop_body e =
     bnd get (\<lambda>v.
       if current_time e - p_last_activity_time v > patch_transcription_timeout
       then seq (p_emit (Log ''Transcription appears stuck, attempting recovery...''))
           (bnd (recover_or_leave (on_recovery e) ''Could not recover recorder'') (\<lambda>j.
              case j of
                Leave \<Rightarrow> ret Leave
              | Again \<Rightarrow>
                  seq (modify (\<lambda>v. v\<lparr>p_last_activity_time := current_time e\<rparr>))
                      (ret Again)))
       else if p_consecutive_failures v \<ge> patch_max_consecutive_failures
       then seq (p_emit (Log ''Too many consecutive failures''))
                (recover_or_leave (on_recovery e) ''Could not recover after failures'')
       else bnd (try_except
                   (bnd (submit_transcription (work e)) (\<lambda>success.
                      seq (only_if (\<not> success)
                             (seq (modify (\<lambda>v. v\<lparr>p_consecutive_failures :=
                                                    p_consecutive_failures v + 1\<rparr>))
                                  (p_emit (Log ''Transcription failed''))))
                          (ret Again)))
                   (\<lambda>ex. case ex of
                      TimeoutError \<Rightarrow>
                        seq (p_emit (Log ''Transcription timed out''))
                       (seq (modify (\<lambda>v. v\<lparr>p_consecutive_failures :=
                                              p_consecutive_failures v + 1\<rparr>))
                       (seq (p_emit Cancel)
                            (recover_or_leave (on_recovery e)
                               ''Could not recover after timeout'')))
                    | OtherError \<Rightarrow> throw OtherError))
              (\<lambda>j. case j of
                 Leave \<Rightarrow> ret Leave
               | Again \<Rightarrow> seq (p_emit (Sleep 0.1)) (ret Again)))"

text \<open>The \<open>while not stop_recorder\<close> loop (lines 114-157).\<close>

fun patch_loop :: "patch_cycle_env list \<Rightarrow> (thread_vars, exit) prog" where
  "patch_loop [] = (\<lambda>v. (Unfinished, v))"
| "patch_loop (e # es) =
     seq (only_if (p_stop_called e) (modify (\<lambda>v. v\<lparr>p_stop_recorder := True\<rparr>)))
       (bnd get (\<lambda>v.
          if p_stop_recorder v then ret Stopped
          else bnd (patch_loop_body e) (\<lambda>j.
                 case j of
                   Leave \<Rightarrow> ret Failed
                 | Again \<Rightarrow> patch_loop es)))"

text \<open>The \<open>finally\<close> block (lines 161-168).\<close>

definition patch_cleanup :: "cleanup_env \<Rightarrow> (thread_vars, unit) prog" where
  "patch_cleanup env =
     try_except
       (seq (bnd get (\<lambda>v.
               only_if (p_recorder v \<noteq> None) (p_call Shutdown (final_shutdown_raises env))))
            (p_call (ExecutorShutdown False) (executor_shutdown_raises env)))
       (\<lambda>e. p_emit (Log ''Cleanup error''))"

text \<open>\<open>enhanced_recorder_thread\<close> from line 101 on.\<close>

record thread_env =
  first_attempts_raise :: "nat \<Rightarrow> bool"
  p_cycles :: "patch_cycle_env list"
  p_at_cleanup :: cleanup_env

definition enhanced_recorder_thread :: "thread_env \<Rightarrow> (thread_vars, exit) prog" where
  "enhanced_recorder_thread env =
     bnd (initialize_recorder_with_retry (first_attempts_raise env)) (\<lambda>ok.
       if \<not> ok
       then seq (p_emit (Log ''Failed to initialize recorder'')) (ret InitFailed)
       else seq (p_emit RecorderReady)
              (try_finally (patch_loop (p_cycles env)) (patch_cleanup (p_at_cleanup env))))"

section \<open>Reading a history\<close>

text \<open>
  The line that \<open>recover_recorder\<close> logs first, in both files: each occurrence in a
  history is one call of \<open>recover_recorder\<close>, and \<open>recoveries\<close> counts them.
\<close>

definition recover_marker :: action where
  "recover_marker = Log ''Attempting to recover recorder...''"

definition recoveries :: "action list \<Rightarrow> nat" where
  "recoveries as = length (filter (\<lambda>a. a = recover_marker) as)"

text \<open>The effects of a manager's history, without the values seen.\<close>

definition actions :: "manager \<Rightarrow> action list" where
  "actions m = map fst (history m)"

text \<open>
  The lines that a failed recovery of \<open>RecorderManager\<close> logs: the handler of
  \<open>recover_recorder\<close> or the handler of \<open>initialize_recorder\<close>. A history is
  \<open>calm\<close> when no recovery is started after such a line.
\<close>

definition gave_up :: "action \<Rightarrow> bool" where
  "gave_up a = (a = Log ''Recovery failed'' \<or> a = Log ''Failed to initialize recorder'')"

fun calm :: "action list \<Rightarrow> bool" where
  "calm [] = True"
| "calm (a # as) = ((gave_up a \<longrightarrow> recover_marker \<notin> set as) \<and> calm as)"

text \<open>
  The effects inside \<open>process_text_with_timeout\<close>, and what a history entry of
  \<open>RecorderManager.run\<close> has to satisfy for a threshold \<open>k\<close>: a recovery starts with
  the counter at \<open>k\<close>, a unit of work is submitted with the counter below \<open>k\<close>, and
  only the effects inside \<open>process_text_with_timeout\<close> see the processing flag set.
\<close>

definition in_unit :: "action \<Rightarrow> bool" where
  "in_unit a = (a = Submit \<or> a = Log ''Transcription timed out''
      \<or> a = Log ''Transcription failed'')"

definition event_ok :: "int \<Rightarrow> action \<times> snapshot \<Rightarrow> bool" where
  "event_ok k ev =
     ((fst ev = recover_marker \<longrightarrow> seen_failures (snd ev) = k) \<and>
      (fst ev = Submit \<longrightarrow> seen_failures (snd ev) < k) \<and>
      (seen_processing (snd ev) \<longrightarrow> in_unit (fst ev)))"

section \<open>The invariant of the loop of RecorderManager.run\<close>

text \<open>
  \<open>settled m m'\<close>: what holds of the manager \<open>m'\<close> after any part of an iteration
  that began at \<open>m\<close>. \<open>steady m\<close>: what holds at the head of the loop, where in
  addition the counter is below the threshold and no recovery has failed so far.
  \<open>started t\<close> is the manager right after a successful first initialization.
\<close>

definition settled :: "manager \<Rightarrow> manager \<Rightarrow> bool" where
  "settled m m' = (recorder m' \<noteq> None \<and> \<not> is_processing m' \<and>
     0 \<le> consecutive_failures m' \<and>
     max_consecutive_failures m' = max_consecutive_failures m \<and>
     health_check_interval m' = health_check_interval m \<and>
     stop_recorder m' = stop_recorder m \<and>
     list_all (event_ok (max_consecutive_failures m)) (history m'))"

definition steady :: "manager \<Rightarrow> bool" where
  "steady m = (settled m m \<and>
     consecutive_failures m < max_consecutive_failures m \<and>
     list_all (\<lambda>a. \<not> gave_up a) (actions m))"

definition started :: "real \<Rightarrow> manager" where
  "started t = (init_manager t)\<lparr>recorder := Some AudioToTextRecorder,
      history := [(Construct, observe (init_manager t))]\<rparr>"

section \<open>The effects of a recovery, of an iteration and of the cleanup\<close>

text \<open>
  The effects of one call of \<open>RecorderManager.recover_recorder\<close> with a recorder
  present, of one iteration of the loop that starts below the threshold
  (\<open>at_threshold\<close>: this failure reaches it), and of \<open>cleanup\<close> with a recorder
  present, as functions of what the surroundings do. The lemmas below prove that the
  methods have exactly these effects.
\<close>

definition recovery_ok :: "recovery_env \<Rightarrow> bool" where
  "recovery_ok env = (\<not> abort_raises env \<and> \<not> clear_raises env \<and> \<not> shutdown_raises env
      \<and> \<not> construct_raises env)"

definition recovery_trail :: "recovery_env \<Rightarrow> action list" where
  "recovery_trail env =
     [recover_marker, Abort] @
     (if abort_raises env then [Log ''Recovery failed''] else
      ClearAudioQueue # (if clear_raises env then [Log ''Recovery failed''] else
      Sleep 1 # Shutdown # (if shutdown_raises env then [Log ''Recovery failed''] else
      Sleep 2 # Construct #
        (if construct_raises env then [Log ''Failed to initialize recorder''] else []))))"

definition failed_unit :: "cycle_env \<Rightarrow> bool" where
  "failed_unit e = (unit_result e \<noteq> Completed)"

definition breaks :: "cycle_env \<Rightarrow> bool \<Rightarrow> bool" where
  "breaks e at_threshold =
     (failed_unit e \<and> at_threshold \<and> \<not> recovery_ok (failure_recovery e))"

definition unit_trail :: "cycle_env \<Rightarrow> bool \<Rightarrow> action list" where
  "unit_trail e at_threshold =
     Submit #
     (case unit_result e of
        Completed \<Rightarrow> []
      | TimedOut \<Rightarrow> [Log ''Transcription timed out'']
      | Raised \<Rightarrow> [Log ''Transcription failed'']) @
     (if failed_unit e
      then Log ''Text processing failed or timed out'' #
           (if at_threshold
            then recovery_trail (failure_recovery e) @
                 (if recovery_ok (failure_recovery e) then []
                  else [Log ''Unable to recover, stopping recorder''])
            else [])
      else [])"

definition body_trail :: "cycle_env \<Rightarrow> bool \<Rightarrow> action list" where
  "body_trail e at_threshold =
     unit_trail e at_threshold @ (if breaks e at_threshold then [] else [Sleep 0.1])"

definition cleanup_trail :: "cleanup_env \<Rightarrow> action list" where
  "cleanup_trail env =
     Shutdown #
     (if final_shutdown_raises env then [Log ''Cleanup error'']
      else ExecutorShutdown True #
           (if executor_shutdown_raises env then [Log ''Cleanup error''] else []))"

section \<open>Reading a history of the thread patch\<close>

text \<open>
  The lines that the patch's loop prints when \<open>recover_recorder\<close> has returned
  \<open>False\<close>, just before it breaks. A history is \<open>plain\<close> when it has no such
  line, and \<open>p_calm\<close> when no recovery is started after one.
\<close>

definition p_gave_up :: "action \<Rightarrow> bool" where
  "p_gave_up a = (a = Log ''Could not recover recorder''
      \<or> a = Log ''Could not recover after failures''
      \<or> a = Log ''Could not recover after timeout'')"

definition plain :: "action list \<Rightarrow> bool" where
  "plain as = list_all (\<lambda>a. \<not> p_gave_up a) as"

fun p_calm :: "action list \<Rightarrow> bool" where
  "p_calm [] = True"
| "p_calm (a # as) = ((p_gave_up a \<longrightarrow> recover_marker \<notin> set as) \<and> p_calm as)"

text \<open>
  Two properties of a piece of the patch's code, used to go through the loop body piece
  by piece. \<open>behaves E p\<close>: \<open>p\<close> returns or raises an exception of \<open>E\<close>, and
  adds only plain lines to the history. \<open>shaped E p\<close>, for a piece that ends an
  iteration: it goes on to the next iteration (or raises an exception of \<open>E\<close>) having
  added only plain lines, or it leaves the loop and the last line it added, and only
  that one, is among those of \<open>p_gave_up\<close>.
\<close>

definition behaves :: "exn set \<Rightarrow> (thread_vars, 'a) prog \<Rightarrow> bool" where
  "behaves E p =
     (\<forall>v. ((\<exists>x. fst (p v) = Return x) \<or> (\<exists>e\<in>E. fst (p v) = Raise e))
        \<and> (\<exists>new. p_history (snd (p v)) = p_history v @ new \<and> plain new))"

definition shaped :: "exn set \<Rightarrow> (thread_vars, jump) prog \<Rightarrow> bool" where
  "shaped E p =
     (\<forall>v. \<exists>new. plain new \<and>
        (((fst (p v) = Return Again \<or> (\<exists>e\<in>E. fst (p v) = Raise e))
           \<and> p_history (snd (p v)) = p_history v @ new)
         \<or> (\<exists>message. fst (p v) = Return Leave \<and> p_gave_up (Log message)
               \<and> p_history (snd (p v)) = p_history v @ new @ [Log message])))"

text \<open>The effects of the patch's \<open>finally\<close> block.\<close>

definition patch_cleanup_trail :: "bool \<Rightarrow> cleanup_env \<Rightarrow> action list" where
  "patch_cleanup_trail has_recorder env =
     (if has_recorder \<and> final_shutdown_raises env then [Shutdown, Log ''Cleanup error'']
      else (if has_recorder then [Shutdown] else []) @
           ExecutorShutdown False #
           (if executor_shutdown_raises env then [Log ''Cleanup error''] else []))"

section \<open>Example inputs\<close>

text \<open>Surroundings in which every call into the engine and the pool returns normally.\<close>

definition calm_recovery :: recovery_env where
  "calm_recovery = \<lparr>abort_raises = False, clear_raises = False, shutdown_raises = False,
      construct_raises = False\<rparr>"

definition calm_cleanup :: cleanup_env where
  "calm_cleanup = \<lparr>final_shutdown_raises = False, executor_shutdown_raises = False\<rparr>"

definition calm_retry :: retry_env where
  "calm_retry = \<lparr>p_abort_raises = False, p_clear_raises = False,
      attempt_raises = (\<lambda>attempt. False)\<rparr>"

text \<open>
  Runs of \<open>RecorderManager.run\<close>: an iteration at clock reading \<open>t\<close> whose unit of
  work times out (after 30 seconds); three of them; two of them with \<open>stop\<close> called
  before the second; a first initialization that fails; and three timeouts where the
  recovery cannot construct a new recorder, with a fourth iteration on offer.
\<close>

definition timeout_cycle :: "real \<Rightarrow> cycle_env" where
  "timeout_cycle t = \<lparr>stop_called = False, loop_time = t, health_time = t,
      health_recovery = calm_recovery, submit_time = t, unit_result = TimedOut,
      failure_recovery = calm_recovery\<rparr>"

definition three_timeouts :: run_env where
  "three_timeouts = \<lparr>first_construct_raises = False, start_time = 0,
      cycles = [timeout_cycle 0.1, timeout_cycle 30.2, timeout_cycle 60.3],
      at_cleanup = calm_cleanup\<rparr>"

definition stopped_run :: run_env where
  "stopped_run = \<lparr>first_construct_raises = False, start_time = 0,
      cycles = [timeout_cycle 0.1, (timeout_cycle 30.2)\<lparr>stop_called := True\<rparr>],
      at_cleanup = calm_cleanup\<rparr>"

definition failed_start :: run_env where
  "failed_start = \<lparr>first_construct_raises = True, start_time = 0, cycles = [],
      at_cleanup = calm_cleanup\<rparr>"

definition hopeless_recovery :: recovery_env where
  "hopeless_recovery = calm_recovery\<lparr>construct_raises := True\<rparr>"

definition hopeless_run :: run_env where
  "hopeless_run = \<lparr>first_construct_raises = False, start_time = 0,
      cycles = [(timeout_cycle 0.1)\<lparr>failure_recovery := hopeless_recovery\<rparr>,
                (timeout_cycle 30.2)\<lparr>failure_recovery := hopeless_recovery\<rparr>,
                (timeout_cycle 60.3)\<lparr>failure_recovery := hopeless_recovery\<rparr>,
                timeout_cycle 100],
      at_cleanup = calm_cleanup\<rparr>"

text \<open>
  The thread patch: an iteration at clock reading \<open>t\<close> whose unit of work times
  out (after 20 seconds).
\<close>

definition timed_out_work :: work_env where
  "timed_out_work = \<lparr>callbacks = [], text_raises = False, times_out = True\<rparr>"

definition patch_cycle :: "real \<Rightarrow> patch_cycle_env" where
  "patch_cycle t = \<lparr>p_stop_called = False, current_time = t, work = timed_out_work,
      on_recovery = calm_retry\<rparr>"

text \<open>
  A run of the patch in which the recovery after the first timeout fails in all three
  attempts, with a second iteration on offer.
\<close>

definition failing_retry :: retry_env where
  "failing_retry = calm_retry\<lparr>attempt_raises := (\<lambda>attempt. True)\<rparr>"

definition patch_hopeless :: thread_env where
  "patch_hopeless = \<lparr>first_attempts_raise = (\<lambda>attempt. False),
      p_cycles = [(patch_cycle 0.5)\<lparr>on_recovery := failing_retry\<rparr>, patch_cycle 30],
      p_at_cleanup = calm_cleanup\<rparr>"

text \<open>A loaded language model, and a classification that hears Italian.\<close>

definition loaded :: detector where
  "loaded = \<lparr>lang_id = Some LanguageIdentification, last_confidence = 0.0\<rparr>"

definition italian_speech :: "unit \<Rightarrow> (string \<times> real) attempt" where
  "italian_speech audio = Succeeds (''it'', 0.9)"

text \<open>
  A classification whose best score is a log-likelihood, hence negative:
  \<open>detect_language\<close> stores \<open>float(prediction[1][0].max())\<close> as it comes.
\<close>

definition log_score_speech :: "unit \<Rightarrow> (string \<times> real) attempt" where
  "log_score_speech audio = Succeeds (''it'', - 0.5)"

section \<open>Unfolding the combinators\<close>

lemmas prog_defs = ret_def throw_def get_def modify_def bnd_def seq_def try_except_def
  try_finally_def only_if_def external_def

section \<open>RecorderManager: what each method does\<close>

text \<open>
  With a recorder present, \<open>process_text_with_timeout\<close>,
  \<open>recover_recorder\<close> and \<open>cleanup\<close> always return, and the state they
  leave can be written down.
\<close>

lemmas mgr_defs = emit_def call_def observe_def

lemma ptwt_present:
  "recorder m \<noteq> None \<Longrightarrow> process_text_with_timeout now outcome m =
     (Return (outcome = Completed),
      m\<lparr>last_activity_time := now,
        consecutive_failures := (if outcome = Completed then 0 else consecutive_failures m + 1),
        is_processing := False,
        history := history m @
          (Submit, \<lparr>seen_failures = consecutive_failures m, seen_processing = True,
                     seen_activity = now\<rparr>) #
          (case outcome of
             Completed \<Rightarrow> []
           | TimedOut \<Rightarrow> [(Log ''Transcription timed out'',
                \<lparr>seen_failures = consecutive_failures m, seen_processing = True,
                   seen_activity = now\<rparr>)]
           | Raised \<Rightarrow> [(Log ''Transcription failed'',
                \<lparr>seen_failures = consecutive_failures m, seen_processing = True,
                   seen_activity = now\<rparr>)])\<rparr>)"
  by (cases outcome; cases "recorder m";
      simp add: process_text_with_timeout_def submit_and_wait_def prog_defs mgr_defs)

lemma recover_present:
  "recorder m \<noteq> None \<Longrightarrow> recover_recorder env m =
     (Return (recovery_ok env),
      m\<lparr>recorder := (if recovery_ok env then Some AudioToTextRecorder else recorder m),
        consecutive_failures :=
          (if recovery_ok env then 0
           else if \<not> abort_raises env \<and> \<not> clear_raises env \<and> \<not> shutdown_raises env
           then consecutive_failures m + 1 else consecutive_failures m),
        history := history m @ map (\<lambda>a. (a, observe m)) (recovery_trail env)\<rparr>)"
  by (simp add: recover_recorder_def initialize_recorder_def prog_defs mgr_defs
        recovery_ok_def recovery_trail_def recover_marker_def)

lemma cleanup_present:
  "recorder m \<noteq> None \<Longrightarrow> cleanup env m =
     (Return (), m\<lparr>history := history m @ map (\<lambda>a. (a, observe m)) (cleanup_trail env)\<rparr>)"
  by (simp add: cleanup_def prog_defs mgr_defs cleanup_trail_def)

subsection \<open>One iteration from the head of the loop\<close>

text \<open>
  At the head of the loop the health check finds nothing: the processing flag is not
  set and the counter is below the threshold.
\<close>

lemma health_phase_steady:
  "steady m \<Longrightarrow> health_phase e c m =
     (Return (Next (if loop_time e - c > health_check_interval m then loop_time e else c)), m)"
  by (simp add: steady_def settled_def health_phase_def health_check_def prog_defs)

lemma recovery_trail_events:
  "\<not> p \<Longrightarrow> k = n \<Longrightarrow>
   list_all (event_ok n)
     (map (\<lambda>a. (a, \<lparr>seen_failures = k, seen_processing = p, seen_activity = t\<rparr>))
        (recovery_trail env))"
  by (simp add: recovery_trail_def event_ok_def recover_marker_def)

lemma unit_phase_result:
  assumes "steady m"
  shows "fst (unit_phase e c m) =
     Return (if breaks e (max_consecutive_failures m \<le> consecutive_failures m + 1)
             then Break else Next c)"
  using assms
  by (simp add: steady_def settled_def unit_phase_def ptwt_present recover_present
        prog_defs emit_def breaks_def failed_unit_def)

lemma unit_phase_trail:
  assumes "steady m"
  shows "actions (snd (unit_phase e c m)) =
     actions m @ unit_trail e (max_consecutive_failures m \<le> consecutive_failures m + 1)"
  using assms
  by (cases "unit_result e")
     (simp_all add: steady_def settled_def unit_phase_def ptwt_present recover_present
        prog_defs emit_def unit_trail_def failed_unit_def actions_def comp_def)

lemma unit_phase_settled:
  assumes "steady m"
  shows "settled m (snd (unit_phase e c m))"
  using assms
  by (cases "unit_result e")
     (auto simp add: steady_def settled_def unit_phase_def ptwt_present recover_present
        prog_defs emit_def observe_def recovery_trail_events
        event_ok_def in_unit_def recover_marker_def)

lemma unit_phase_failures:
  assumes "steady m" and "\<not> breaks e (max_consecutive_failures m \<le> consecutive_failures m + 1)"
  shows "consecutive_failures (snd (unit_phase e c m)) =
     (if failed_unit e \<and> consecutive_failures m + 1 < max_consecutive_failures m
      then consecutive_failures m + 1 else 0)"
  using assms
  by (cases "unit_result e")
     (auto simp add: steady_def settled_def unit_phase_def ptwt_present recover_present
        prog_defs emit_def breaks_def failed_unit_def)

subsection \<open>Properties of the expected effects\<close>

lemma steady_settled:
  "steady m \<Longrightarrow> settled m m' \<Longrightarrow>
   consecutive_failures m' < max_consecutive_failures m \<Longrightarrow>
   list_all (\<lambda>a. \<not> gave_up a) (actions m') \<Longrightarrow> steady m'"
  by (simp add: steady_def settled_def)

lemma calm_append_quiet: "list_all (\<lambda>a. \<not> gave_up a) xs \<Longrightarrow> calm (xs @ ys) = calm ys"
  by (induction xs) auto

lemma calm_append_plain:
  "recover_marker \<notin> set ys \<Longrightarrow> calm ys \<Longrightarrow> calm (xs @ ys) = calm xs"
  by (induction xs) auto

lemma recovery_trail_quiet:
  "list_all (\<lambda>a. \<not> gave_up a) (recovery_trail env) = recovery_ok env"
  by (simp add: recovery_trail_def recovery_ok_def gave_up_def recover_marker_def)

lemma recovery_trail_calm: "calm (recovery_trail env)"
  by (simp add: recovery_trail_def gave_up_def recover_marker_def)


lemma body_trail_quiet:
  "list_all (\<lambda>a. \<not> gave_up a) (body_trail e hit) = (\<not> breaks e hit)"
  by (cases "unit_result e")
     (auto simp add: body_trail_def unit_trail_def breaks_def failed_unit_def
        recovery_trail_quiet, simp_all add: gave_up_def)

lemma body_trail_calm: "calm (body_trail e hit)"
  by (cases "unit_result e")
     (simp_all add: body_trail_def unit_trail_def breaks_def failed_unit_def
        gave_up_def calm_append_plain recovery_trail_calm recover_marker_def)

lemma recoveries_append [simp]: "recoveries (xs @ ys) = recoveries xs + recoveries ys"
  by (simp add: recoveries_def)

lemma recoveries_Nil [simp]: "recoveries [] = 0"
  by (simp add: recoveries_def)

lemma recoveries_Cons [simp]:
  "recoveries (a # as) = (if a = recover_marker then 1 else 0) + recoveries as"
  by (simp add: recoveries_def)

lemma recovery_trail_count: "recoveries (recovery_trail env) = 1"
  by (simp add: recovery_trail_def recoveries_def recover_marker_def)

lemma body_trail_count:
  "recoveries (body_trail e hit) = (if failed_unit e \<and> hit then 1 else 0)"
  by (cases "unit_result e")
     (simp_all add: body_trail_def unit_trail_def failed_unit_def recovery_trail_count
        breaks_def, simp_all add: recover_marker_def)

lemma cleanup_trail_plain:
  "recover_marker \<notin> set (cleanup_trail env) \<and> calm (cleanup_trail env)
   \<and> list_all (\<lambda>a. \<not> gave_up a) (cleanup_trail env) \<and> recoveries (cleanup_trail env) = 0"
  by (simp add: cleanup_trail_def recover_marker_def gave_up_def)

subsection \<open>The loop body and the loop\<close>

lemma loop_body_steady:
  assumes "steady m"
  defines "hit \<equiv> max_consecutive_failures m \<le> consecutive_failures m + 1"
  shows "fst (loop_body e c m) =
           Return (if breaks e hit then Break
                   else Next (if loop_time e - c > health_check_interval m
                              then loop_time e else c))"
    and "actions (snd (loop_body e c m)) = actions m @ body_trail e hit"
    and "settled m (snd (loop_body e c m))"
    and "\<not> breaks e hit \<Longrightarrow> consecutive_failures (snd (loop_body e c m)) =
           (if failed_unit e \<and> consecutive_failures m + 1 < max_consecutive_failures m
            then consecutive_failures m + 1 else 0)"
proof -
  define c1 where "c1 = (if loop_time e - c > health_check_interval m then loop_time e else c)"
  have h: "health_phase e c m = (Return (Next c1), m)"
    using health_phase_steady [OF assms(1)] by (simp add: c1_def)
  obtain r1 m1 where u: "unit_phase e c1 m = (r1, m1)"
    by (cases "unit_phase e c1 m")
  have r1: "r1 = Return (if breaks e hit then Break else Next c1)"
    using unit_phase_result [OF assms(1), of e c1] u by (simp add: hit_def)
  have t1: "actions m1 = actions m @ unit_trail e hit"
    using unit_phase_trail [OF assms(1), of e c1] u by (simp add: hit_def)
  have s1: "settled m m1"
    using unit_phase_settled [OF assms(1), of e c1] u by simp
  have eq: "loop_body e c m =
      (if breaks e hit then (Return Break, m1)
       else (Return (Next c1), m1\<lparr>history := history m1 @ [(Sleep 0.1, observe m1)]\<rparr>))"
    using h u r1 by (simp add: loop_body_def prog_defs emit_def)
  show "fst (loop_body e c m) =
           Return (if breaks e hit then Break
                   else Next (if loop_time e - c > health_check_interval m
                              then loop_time e else c))"
    by (simp add: eq c1_def)
  show "actions (snd (loop_body e c m)) = actions m @ body_trail e hit"
    using t1 by (simp add: eq body_trail_def actions_def)
  show "settled m (snd (loop_body e c m))"
    using s1 by (simp add: eq settled_def event_ok_def observe_def recover_marker_def)
  show "consecutive_failures (snd (loop_body e c m)) =
           (if failed_unit e \<and> consecutive_failures m + 1 < max_consecutive_failures m
            then consecutive_failures m + 1 else 0)" if "\<not> breaks e hit"
    using unit_phase_failures [OF assms(1), of e c1] u that by (simp add: eq hit_def)
qed

lemma run_loop_Cons:
  "run_loop (e # es) c m =
     (let m0 = (if stop_called e then m\<lparr>stop_recorder := True\<rparr> else m) in
      if stop_recorder m0 then (Return Stopped, m0)
      else case loop_body e c m0 of
             (Return Break, m1) \<Rightarrow> (Return Failed, m1)
           | (Return (Next c'), m1) \<Rightarrow> run_loop es c' m1
           | (Raise x, m1) \<Rightarrow> (Raise x, m1)
           | (Unfinished, m1) \<Rightarrow> (Unfinished, m1))"
  by (simp add: prog_defs stop_def Let_def split: prod.splits result.splits flow.splits)

lemma quiet_calm: "list_all (\<lambda>a. \<not> gave_up a) xs \<Longrightarrow> calm xs"
  by (induction xs) auto

lemma run_loop_steady:
  "steady m \<Longrightarrow>
     (fst (run_loop es c m) = Unfinished \<or> fst (run_loop es c m) = Return Stopped
        \<or> fst (run_loop es c m) = Return Failed)
     \<and> recorder (snd (run_loop es c m)) \<noteq> None
     \<and> \<not> is_processing (snd (run_loop es c m))
     \<and> max_consecutive_failures (snd (run_loop es c m)) = max_consecutive_failures m
     \<and> list_all (event_ok (max_consecutive_failures m)) (history (snd (run_loop es c m)))
     \<and> calm (actions (snd (run_loop es c m)))
     \<and> (list_all (\<lambda>a. \<not> gave_up a) (actions (snd (run_loop es c m)))
          = (fst (run_loop es c m) \<noteq> Return Failed))
     \<and> ((\<exists>e\<in>set es. stop_called e) \<longrightarrow> fst (run_loop es c m) \<noteq> Unfinished)"
proof (induction es arbitrary: c m)
  case Nil
  then show ?case by (simp add: steady_def settled_def quiet_calm)
next
  case (Cons e es)
  define m0 where "m0 = (if stop_called e then m\<lparr>stop_recorder := True\<rparr> else m)"
  have s0: "steady m0" using Cons.prems by (simp add: steady_def settled_def m0_def actions_def)
  have mx: "max_consecutive_failures m0 = max_consecutive_failures m" by (simp add: m0_def)
  have st: "stop_called e \<Longrightarrow> stop_recorder m0" by (simp add: m0_def)
  have step: "run_loop (e # es) c m =
      (if stop_recorder m0 then (Return Stopped, m0)
       else case loop_body e c m0 of
             (Return Break, m1) \<Rightarrow> (Return Failed, m1)
           | (Return (Next c'), m1) \<Rightarrow> run_loop es c' m1
           | (Raise x, m1) \<Rightarrow> (Raise x, m1)
           | (Unfinished, m1) \<Rightarrow> (Unfinished, m1))"
    unfolding run_loop_Cons m0_def Let_def ..
  show ?case
  proof (cases "stop_recorder m0")
    case True
    with s0 mx show ?thesis unfolding step
      by (simp add: steady_def settled_def quiet_calm)
  next
    case False
    define hit where "hit = (max_consecutive_failures m0 \<le> consecutive_failures m0 + 1)"
    obtain r1 m1 where b: "loop_body e c m0 = (r1, m1)" by (cases "loop_body e c m0")
    have r1: "r1 = Return (if breaks e hit then Break
                   else Next (if loop_time e - c > health_check_interval m0
                              then loop_time e else c))"
      using loop_body_steady(1) [OF s0, of e c] b by (simp add: hit_def)
    have a1: "actions m1 = actions m0 @ body_trail e hit"
      using loop_body_steady(2) [OF s0, of e c] b by (simp add: hit_def)
    have s1: "settled m0 m1"
      using loop_body_steady(3) [OF s0, of e c] b by simp
    have q0: "list_all (\<lambda>a. \<not> gave_up a) (actions m0)"
      using s0 by (simp add: steady_def)
    show ?thesis
    proof (cases "breaks e hit")
      case True
      with False b r1 have eq: "run_loop (e # es) c m = (Return Failed, m1)"
        unfolding step by simp
      show ?thesis using s1 mx q0 True unfolding eq
        by (simp add: settled_def a1 calm_append_quiet body_trail_calm body_trail_quiet)
    next
      case nb: False
      define c1 where "c1 = (if loop_time e - c > health_check_interval m0 then loop_time e else c)"
      from False b r1 nb have eq: "run_loop (e # es) c m = run_loop es c1 m1"
        unfolding step by (simp add: c1_def)
      have f1: "consecutive_failures m1 =
           (if failed_unit e \<and> consecutive_failures m0 + 1 < max_consecutive_failures m0
            then consecutive_failures m0 + 1 else 0)"
        using loop_body_steady(4) [OF s0, of e c] b nb by (simp add: hit_def)
      have "consecutive_failures m1 < max_consecutive_failures m0"
        using s0 by (simp add: f1 steady_def settled_def)
      moreover have "list_all (\<lambda>a. \<not> gave_up a) (actions m1)"
        using q0 nb by (simp add: a1 body_trail_quiet)
      ultimately have "steady m1" using steady_settled [OF s0 s1] by simp
      from Cons.IH [OF this, of c1] s1 mx False st show ?thesis
        unfolding eq by (auto simp add: settled_def)
    qed
  qed
qed

subsection \<open>The whole run\<close>

lemma initialize_recorder_eq:
  "initialize_recorder raises m =
     (if raises
      then (Return False,
            m\<lparr>consecutive_failures := consecutive_failures m + 1,
              history := history m @
                [(Construct, observe m), (Log ''Failed to initialize recorder'', observe m)]\<rparr>)
      else (Return True,
            m\<lparr>recorder := Some AudioToTextRecorder, consecutive_failures := 0,
              history := history m @ [(Construct, observe m)]\<rparr>))"
  by (simp add: initialize_recorder_def prog_defs mgr_defs)

lemma started_steady: "steady (started t)"
  by (simp add: started_def steady_def settled_def init_manager_def event_ok_def observe_def
        recover_marker_def gave_up_def actions_def)

lemma run_started:
  "\<not> first_construct_raises env \<Longrightarrow>
   run env (init_manager t) =
     try_finally (run_loop (cycles env) (start_time env)) (cleanup (at_cleanup env)) (started t)"
  by (simp add: run_def initialize_recorder_eq prog_defs started_def init_manager_def)

lemma run_finished:
  fixes env :: run_env and t :: real
  assumes "\<not> first_construct_raises env"
  defines "R \<equiv> run_loop (cycles env) (start_time env) (started t)"
  shows "run env (init_manager t) =
     (if fst R = Unfinished then R
      else (fst R, (snd R)\<lparr>history := history (snd R) @
              map (\<lambda>a. (a, observe (snd R))) (cleanup_trail (at_cleanup env))\<rparr>))"
proof -
  note L = run_loop_steady [OF started_steady, of "cycles env" "start_time env" t]
  obtain r m1 where R: "R = (r, m1)" by (cases R)
  with L have rec: "recorder m1 \<noteq> None" by (simp add: R_def)
  show ?thesis
    using R rec unfolding run_started [OF assms(1)] R_def [symmetric]
    by (cases r) (simp_all add: try_finally_def R_def [symmetric] cleanup_present)
qed

lemma run_not_started:
  "first_construct_raises env \<Longrightarrow>
   fst (run env (init_manager t)) = Return InitFailed \<and>
   actions (snd (run env (init_manager t))) =
     [Construct, Log ''Failed to initialize recorder'', Log ''Failed to initialize recorder'']"
  by (simp add: run_def initialize_recorder_eq prog_defs emit_def init_manager_def actions_def)

text \<open>
  A streak of failed units of work that takes the counter exactly to the threshold
  starts one recovery, at its last failure.
\<close>

lemma run_loop_streak:
  "steady m \<Longrightarrow> \<not> stop_recorder m \<Longrightarrow>
   \<forall>e\<in>set es. failed_unit e \<and> \<not> stop_called e \<Longrightarrow>
   consecutive_failures m + int (length es) = max_consecutive_failures m \<Longrightarrow>
   recoveries (actions (snd (run_loop es c m))) = recoveries (actions m) + 1"
proof (induction es arbitrary: c m)
  case Nil
  then show ?case by (simp add: steady_def)
next
  case (Cons e es)
  define hit where "hit = (max_consecutive_failures m \<le> consecutive_failures m + 1)"
  have s0: "steady m" by (rule Cons.prems(1))
  have e: "failed_unit e" "\<not> stop_called e" using Cons.prems(3) by simp_all
  obtain r1 m1 where b: "loop_body e c m = (r1, m1)" by (cases "loop_body e c m")
  have r1: "r1 = Return (if breaks e hit then Break
                 else Next (if loop_time e - c > health_check_interval m
                            then loop_time e else c))"
    using loop_body_steady(1) [OF s0, of e c] b by (simp add: hit_def)
  have a1: "actions m1 = actions m @ body_trail e hit"
    using loop_body_steady(2) [OF s0, of e c] b by (simp add: hit_def)
  have s1: "settled m m1"
    using loop_body_steady(3) [OF s0, of e c] b by simp
  have step: "run_loop (e # es) c m =
      (case loop_body e c m of
             (Return Break, m1) \<Rightarrow> (Return Failed, m1)
           | (Return (Next c'), m1) \<Rightarrow> run_loop es c' m1
           | (Raise x, m1) \<Rightarrow> (Raise x, m1)
           | (Unfinished, m1) \<Rightarrow> (Unfinished, m1))"
    unfolding run_loop_Cons Let_def using e Cons.prems(2) by simp
  show ?case
  proof (cases es)
    case Nil
    then have hit: hit using Cons.prems(4) by (simp add: hit_def)
    have "snd (run_loop (e # es) c m) = m1"
      unfolding step using b r1 Nil by simp
    then show ?thesis using hit e by (simp add: a1 body_trail_count)
  next
    case (Cons e' es')
    then have nh: "\<not> hit" using Cons.prems(4) by (simp add: hit_def)
    then have nb: "\<not> breaks e hit" by (simp add: breaks_def)
    define c1 where "c1 = (if loop_time e - c > health_check_interval m then loop_time e else c)"
    have eq: "run_loop (e # es) c m = run_loop es c1 m1"
      unfolding step using b r1 nb by (simp add: c1_def)
    have f1: "consecutive_failures m1 = consecutive_failures m + 1"
      using loop_body_steady(4) [OF s0, of e c] b nb nh e by (simp add: hit_def)
    have "list_all (\<lambda>a. \<not> gave_up a) (actions m1)"
      using s0 nb by (simp add: a1 body_trail_quiet steady_def)
    then have st1: "steady m1"
      using steady_settled [OF s0 s1] nh f1 by (simp add: hit_def)
    have "recoveries (actions (snd (run_loop es c1 m1))) = recoveries (actions m1) + 1"
      using Cons.IH [OF st1, of c1] s1 Cons.prems f1 by (simp add: settled_def)
    then show ?thesis unfolding eq using nh by (simp add: a1 body_trail_count)
  qed
qed

text \<open>
  A loop that has used up the iterations \<open>es1\<close> without being left goes on with
  \<open>es2\<close> from the head of the loop.
\<close>

lemma run_loop_append:
  "steady m \<Longrightarrow> \<not> stop_recorder m \<Longrightarrow> fst (run_loop es1 c m) = Unfinished \<Longrightarrow>
   \<exists>c1. run_loop (es1 @ es2) c m = run_loop es2 c1 (snd (run_loop es1 c m))
        \<and> steady (snd (run_loop es1 c m)) \<and> \<not> stop_recorder (snd (run_loop es1 c m))"
proof (induction es1 arbitrary: c m)
  case Nil
  then show ?case by (intro exI [of _ c]) simp
next
  case (Cons e es)
  define m0 where "m0 = (if stop_called e then m\<lparr>stop_recorder := True\<rparr> else m)"
  have s0: "steady m0" using Cons.prems by (simp add: steady_def settled_def m0_def actions_def)
  have step: "run_loop (e # xs) c m =
      (if stop_recorder m0 then (Return Stopped, m0)
       else case loop_body e c m0 of
             (Return Break, m1) \<Rightarrow> (Return Failed, m1)
           | (Return (Next c'), m1) \<Rightarrow> run_loop xs c' m1
           | (Raise x, m1) \<Rightarrow> (Raise x, m1)
           | (Unfinished, m1) \<Rightarrow> (Unfinished, m1))" for xs
    unfolding run_loop_Cons m0_def Let_def ..
  have ns: "\<not> stop_recorder m0"
    using Cons.prems(3) unfolding step by (auto split: if_splits)
  define hit where "hit = (max_consecutive_failures m0 \<le> consecutive_failures m0 + 1)"
  obtain r1 m1 where b: "loop_body e c m0 = (r1, m1)" by (cases "loop_body e c m0")
  have r1: "r1 = Return (if breaks e hit then Break
                 else Next (if loop_time e - c > health_check_interval m0
                            then loop_time e else c))"
    using loop_body_steady(1) [OF s0, of e c] b by (simp add: hit_def)
  have a1: "actions m1 = actions m0 @ body_trail e hit"
    using loop_body_steady(2) [OF s0, of e c] b by (simp add: hit_def)
  have s1: "settled m0 m1"
    using loop_body_steady(3) [OF s0, of e c] b by simp
  have nb: "\<not> breaks e hit"
    using Cons.prems(3) ns b r1 unfolding step by (auto split: if_splits)
  define c1 where "c1 = (if loop_time e - c > health_check_interval m0 then loop_time e else c)"
  have eq: "run_loop (e # xs) c m = run_loop xs c1 m1" for xs
    unfolding step using ns b r1 nb by (simp add: c1_def)
  have f1: "consecutive_failures m1 =
       (if failed_unit e \<and> consecutive_failures m0 + 1 < max_consecutive_failures m0
        then consecutive_failures m0 + 1 else 0)"
    using loop_body_steady(4) [OF s0, of e c] b nb by (simp add: hit_def)
  have "consecutive_failures m1 < max_consecutive_failures m0"
    using s0 by (simp add: f1 steady_def settled_def)
  moreover have "list_all (\<lambda>a. \<not> gave_up a) (actions m1)"
    using s0 nb by (simp add: a1 body_trail_quiet steady_def)
  ultimately have st1: "steady m1" using steady_settled [OF s0 s1] by simp
  have ns1: "\<not> stop_recorder m1" using s1 ns by (simp add: settled_def)
  have u1: "fst (run_loop es c1 m1) = Unfinished" using Cons.prems(3) unfolding eq .
  from Cons.IH [OF st1 ns1 u1] show ?case
    unfolding append_Cons eq .
qed

text \<open>
  Failed units of work in a row, too few to reach the threshold twice: one recovery
  if they reach it, none otherwise.
\<close>

lemma run_loop_window:
  "steady m \<Longrightarrow> \<not> stop_recorder m \<Longrightarrow>
   \<forall>e\<in>set es. failed_unit e \<and> \<not> stop_called e \<Longrightarrow>
   consecutive_failures m + int (length es) < 2 * max_consecutive_failures m \<Longrightarrow>
   recoveries (actions (snd (run_loop es c m))) = recoveries (actions m) +
     (if max_consecutive_failures m \<le> consecutive_failures m + int (length es) then 1 else 0)"
proof (induction es arbitrary: c m)
  case Nil
  then show ?case by (simp add: steady_def)
next
  case (Cons e es)
  define hit where "hit = (max_consecutive_failures m \<le> consecutive_failures m + 1)"
  have s0: "steady m" by (rule Cons.prems(1))
  have e: "failed_unit e" "\<not> stop_called e" using Cons.prems(3) by simp_all
  have rest: "\<forall>e\<in>set es. failed_unit e \<and> \<not> stop_called e" using Cons.prems(3) by simp
  have nn: "0 \<le> consecutive_failures m" "consecutive_failures m < max_consecutive_failures m"
    using s0 by (simp_all add: steady_def settled_def)
  obtain r1 m1 where b: "loop_body e c m = (r1, m1)" by (cases "loop_body e c m")
  have r1: "r1 = Return (if breaks e hit then Break
                 else Next (if loop_time e - c > health_check_interval m
                            then loop_time e else c))"
    using loop_body_steady(1) [OF s0, of e c] b by (simp add: hit_def)
  have a1: "actions m1 = actions m @ body_trail e hit"
    using loop_body_steady(2) [OF s0, of e c] b by (simp add: hit_def)
  have s1: "settled m m1"
    using loop_body_steady(3) [OF s0, of e c] b by simp
  have step: "run_loop (e # es) c m =
      (case loop_body e c m of
             (Return Break, m1) \<Rightarrow> (Return Failed, m1)
           | (Return (Next c'), m1) \<Rightarrow> run_loop es c' m1
           | (Raise x, m1) \<Rightarrow> (Raise x, m1)
           | (Unfinished, m1) \<Rightarrow> (Unfinished, m1))"
    unfolding run_loop_Cons Let_def using e Cons.prems(2) by simp
  show ?case
  proof (cases "breaks e hit")
    case True
    then have h: hit by (simp add: breaks_def)
    have "snd (run_loop (e # es) c m) = m1"
      unfolding step using b r1 True by simp
    moreover have "max_consecutive_failures m \<le> consecutive_failures m + int (length (e # es))"
      using h by (simp add: hit_def)
    ultimately show ?thesis using h e by (simp add: a1 body_trail_count)
  next
    case nb: False
    define c1 where "c1 = (if loop_time e - c > health_check_interval m then loop_time e else c)"
    have eq: "run_loop (e # es) c m = run_loop es c1 m1"
      unfolding step using b r1 nb by (simp add: c1_def)
    have f1: "consecutive_failures m1 = (if hit then 0 else consecutive_failures m + 1)"
      using loop_body_steady(4) [OF s0, of e c] b nb e by (auto simp add: hit_def)
    have mx: "max_consecutive_failures m1 = max_consecutive_failures m"
      using s1 by (simp add: settled_def)
    have "list_all (\<lambda>a. \<not> gave_up a) (actions m1)"
      using s0 nb by (simp add: a1 body_trail_quiet steady_def)
    moreover have "consecutive_failures m1 < max_consecutive_failures m"
      using nn by (simp add: f1 hit_def)
    ultimately have st1: "steady m1"
      using steady_settled [OF s0 s1] by simp
    have ns1: "\<not> stop_recorder m1" using s1 Cons.prems(2) by (simp add: settled_def)
    have b1: "consecutive_failures m1 + int (length es) < 2 * max_consecutive_failures m1"
      using Cons.prems(4) nn by (simp add: f1 mx hit_def)
    have "recoveries (actions (snd (run_loop es c1 m1))) = recoveries (actions m1) +
       (if max_consecutive_failures m1 \<le> consecutive_failures m1 + int (length es)
        then 1 else 0)"
      by (rule Cons.IH [OF st1 ns1 rest b1])
    then show ?thesis unfolding eq using e nn Cons.prems(4)
      by (auto simp add: a1 body_trail_count f1 mx hit_def)
  qed
qed

lemma run_event_ok:
  "list_all (event_ok 3) (history (snd (run env (init_manager t))))"
proof (cases "first_construct_raises env")
  case True
  then show ?thesis
    by (simp add: run_def initialize_recorder_eq prog_defs emit_def init_manager_def
          event_ok_def observe_def recover_marker_def)
next
  case False
  define R where "R = run_loop (cycles env) (start_time env) (started t)"
  note L = run_loop_steady [OF started_steady, of "cycles env" "start_time env" t,
      folded R_def]
  have mx: "max_consecutive_failures (started t) = 3"
    by (simp add: started_def init_manager_def)
  have "list_all (event_ok 3) (history (snd R))" using L mx by simp
  moreover have "list_all (event_ok 3)
      (map (\<lambda>a. (a, observe (snd R))) (cleanup_trail (at_cleanup env)))"
    using L by (simp add: cleanup_trail_def event_ok_def observe_def recover_marker_def)
  ultimately show ?thesis
    unfolding run_finished [OF False] R_def [symmetric] by simp
qed

lemma run_three_failures:
  assumes "\<not> first_construct_raises env" and "cycles env = [e1, e2, e3]"
    and "\<forall>e\<in>set (cycles env). failed_unit e \<and> \<not> stop_called e"
  shows "recoveries (actions (snd (run env (init_manager t)))) = 1"
proof -
  define R where "R = run_loop (cycles env) (start_time env) (started t)"
  have "recoveries (actions (snd R)) = recoveries (actions (started t)) + 1"
    unfolding R_def using assms(2,3)
    by (intro run_loop_streak started_steady)
       (simp_all add: started_def init_manager_def)
  then have "recoveries (actions (snd R)) = 1"
    by (simp add: started_def actions_def recover_marker_def)
  then show ?thesis
    unfolding run_finished [OF assms(1)] R_def [symmetric]
    by (simp add: actions_def comp_def cleanup_trail_plain [unfolded actions_def])
qed

text \<open>
  Three failed units of work in a row, anywhere in a run: one recovery, whatever the
  counter was when they began.
\<close>

lemma run_window:
  fixes env :: run_env and t :: real
  assumes u: "fst (run (env\<lparr>cycles := pre\<rparr>) (init_manager t)) = Unfinished"
    and f: "\<forall>e\<in>set streak. unit_result e \<noteq> Completed \<and> \<not> stop_called e"
    and l: "length streak = 3"
  shows "recoveries (actions (snd (run (env\<lparr>cycles := pre @ streak\<rparr>) (init_manager t)))) =
     recoveries (actions (snd (run (env\<lparr>cycles := pre\<rparr>) (init_manager t)))) + 1"
proof -
  have nf: "\<not> first_construct_raises env"
    using u run_not_started [of "env\<lparr>cycles := pre\<rparr>" t] by auto
  define R1 where "R1 = run_loop pre (start_time env) (started t)"
  define R2 where "R2 = run_loop (pre @ streak) (start_time env) (started t)"
  have e1: "run (env\<lparr>cycles := pre\<rparr>) (init_manager t) =
     (if fst R1 = Unfinished then R1
      else (fst R1, (snd R1)\<lparr>history := history (snd R1) @
              map (\<lambda>a. (a, observe (snd R1))) (cleanup_trail (at_cleanup env))\<rparr>))"
    using run_finished [of "env\<lparr>cycles := pre\<rparr>" t] nf by (simp add: R1_def)
  have e2: "run (env\<lparr>cycles := pre @ streak\<rparr>) (init_manager t) =
     (if fst R2 = Unfinished then R2
      else (fst R2, (snd R2)\<lparr>history := history (snd R2) @
              map (\<lambda>a. (a, observe (snd R2))) (cleanup_trail (at_cleanup env))\<rparr>))"
    using run_finished [of "env\<lparr>cycles := pre @ streak\<rparr>" t] nf by (simp add: R2_def)
  have u1: "fst R1 = Unfinished" using u unfolding e1 by (simp split: if_splits)
  have st: "steady (started t)" by (rule started_steady)
  have ns: "\<not> stop_recorder (started t)" by (simp add: started_def init_manager_def)
  obtain c1 where c1: "R2 = run_loop streak c1 (snd R1)" "steady (snd R1)"
      "\<not> stop_recorder (snd R1)"
    using run_loop_append [OF st ns u1 [unfolded R1_def], of streak]
    unfolding R1_def R2_def by blast
  have mx: "max_consecutive_failures (snd R1) = 3"
    using run_loop_steady [OF st, of pre "start_time env"]
    by (simp add: R1_def started_def init_manager_def)
  have nn: "0 \<le> consecutive_failures (snd R1)" "consecutive_failures (snd R1) < 3"
    using c1(2) mx by (simp_all add: steady_def settled_def)
  have "recoveries (actions (snd R2)) = recoveries (actions (snd R1)) + 1"
    unfolding c1(1)
    using run_loop_window [OF c1(2) c1(3), of streak c1] f l nn mx
    by (simp add: failed_unit_def)
  moreover have "recoveries (actions (snd (run (env\<lparr>cycles := pre @ streak\<rparr>) (init_manager t))))
      = recoveries (actions (snd R2))"
    unfolding e2
    by (simp add: actions_def comp_def cleanup_trail_plain [unfolded actions_def])
  moreover have "run (env\<lparr>cycles := pre\<rparr>) (init_manager t) = R1"
    unfolding e1 using u1 by simp
  ultimately show ?thesis by simp
qed

text \<open>The same methods with no recorder present.\<close>

lemma ptwt_absent:
  "recorder m = None \<Longrightarrow> process_text_with_timeout now outcome m =
     (Return False,
      m\<lparr>last_activity_time := now,
        consecutive_failures := consecutive_failures m + 1,
        is_processing := False,
        history := history m @
          [(Log ''Transcription failed'',
            \<lparr>seen_failures = consecutive_failures m, seen_processing = True,
               seen_activity = now\<rparr>)]\<rparr>)"
  by (simp add: process_text_with_timeout_def submit_and_wait_def prog_defs mgr_defs)

lemma cleanup_absent:
  "recorder m = None \<Longrightarrow> cleanup env m =
     (Return (), m\<lparr>history := history m @ map (\<lambda>a. (a, observe m))
        (ExecutorShutdown True #
           (if executor_shutdown_raises env then [Log ''Cleanup error''] else []))\<rparr>)"
  by (simp add: cleanup_def prog_defs mgr_defs)

lemma recover_absent:
  "recorder m = None \<Longrightarrow> recover_recorder env m =
     (Return (\<not> construct_raises env),
      m\<lparr>recorder := (if construct_raises env then None else Some AudioToTextRecorder),
        consecutive_failures :=
          (if construct_raises env then consecutive_failures m + 1 else 0),
        history := history m @ map (\<lambda>a. (a, observe m))
          ([recover_marker, Construct] @
           (if construct_raises env then [Log ''Failed to initialize recorder''] else []))\<rparr>)"
  by (simp add: recover_recorder_def initialize_recorder_def prog_defs mgr_defs
        recover_marker_def)

lemma run_outcome:
  "(first_construct_raises env \<longrightarrow>
      fst (run env (init_manager t)) = Return InitFailed
      \<and> actions (snd (run env (init_manager t))) =
          [Construct, Log ''Failed to initialize recorder'',
           Log ''Failed to initialize recorder''])
   \<and> (\<not> first_construct_raises env \<longrightarrow>
        (fst (run env (init_manager t)) = Unfinished
           \<or> fst (run env (init_manager t)) = Return Stopped
           \<or> fst (run env (init_manager t)) = Return Failed)
        \<and> (fst (run env (init_manager t)) \<noteq> Unfinished \<longrightarrow>
             (\<exists>h. actions (snd (run env (init_manager t))) =
                    h @ cleanup_trail (at_cleanup env)))
        \<and> ((\<exists>e\<in>set (cycles env). stop_called e) \<longrightarrow>
              fst (run env (init_manager t)) \<noteq> Unfinished))
   \<and> \<not> is_processing (snd (run env (init_manager t)))
   \<and> calm (actions (snd (run env (init_manager t))))
   \<and> (\<exists>a\<in>set (actions (snd (run env (init_manager t)))). gave_up a) =
         (fst (run env (init_manager t)) = Return Failed
          \<or> fst (run env (init_manager t)) = Return InitFailed)"
proof (cases "first_construct_raises env")
  case True
  have "\<not> is_processing (snd (run env (init_manager t)))"
    using True
    by (simp add: run_def initialize_recorder_eq prog_defs emit_def init_manager_def)
  then show ?thesis
    using True run_not_started [OF True, of t]
    by (simp add: gave_up_def recover_marker_def)
next
  case False
  define R where "R = run_loop (cycles env) (start_time env) (started t)"
  note L = run_loop_steady [OF started_steady, of "cycles env" "start_time env" t,
      folded R_def]
  note F = run_finished [OF False, of t, folded R_def]
  have q: "list_all (\<lambda>a. \<not> gave_up a) (actions (snd R)) = (fst R \<noteq> Return Failed)"
    using L by blast
  show ?thesis
  proof (cases "fst R = Unfinished")
    case True
    then have "run env (init_manager t) = R" by (simp add: F)
    then show ?thesis using False L True q by (auto simp add: list_all_iff)
  next
    case nu: False
    have r: "fst (run env (init_manager t)) = fst R" using nu by (simp add: F)
    have a: "actions (snd (run env (init_manager t))) =
        actions (snd R) @ cleanup_trail (at_cleanup env)"
      using nu by (simp add: F actions_def comp_def)
    have p: "\<not> is_processing (snd (run env (init_manager t)))"
      using nu L by (simp add: F)
    have c: "calm (actions (snd (run env (init_manager t))))"
      using L by (simp add: a calm_append_plain cleanup_trail_plain)
    have g: "list_all (\<lambda>a. \<not> gave_up a) (actions (snd (run env (init_manager t))))
        = (fst R \<noteq> Return Failed)"
      using q by (simp add: a cleanup_trail_plain)
    show ?thesis using False nu L p c g unfolding r
      by (auto simp add: a list_all_iff)
  qed
qed

lemmas patch_defs = p_emit_def p_call_def

lemma cleanup_returns: "fst (cleanup cenv m) = Return ()"
  by (cases "recorder m = None") (simp_all add: cleanup_absent cleanup_present)

lemma run_callbacks_returns:
  "fst (run_callbacks cs v) = Return ()
   \<and> p_recorder (snd (run_callbacks cs v)) = p_recorder v"
proof (induction cs arbitrary: v)
  case Nil
  show ?case by (simp add: ret_def)
next
  case (Cons c cs)
  obtain v1 where s: "patch_process_text c v = (Return (), v1)" "p_recorder v1 = p_recorder v"
    by (cases "delivery_raises c") (simp_all add: patch_process_text_def prog_defs patch_defs)
  show ?case using Cons.IH [of v1] s by (simp add: seq_def bnd_def)
qed

section \<open>The thread patch: what its functions may do\<close>

subsection \<open>Rules for the pieces of the code\<close>

lemma plain_simps [simp]:
  "plain []" "plain (a # as) = (\<not> p_gave_up a \<and> plain as)"
  "plain (xs @ ys) = (plain xs \<and> plain ys)"
  by (simp_all add: plain_def)

lemma behaves_ret: "behaves E (ret x)"
  by (simp add: behaves_def ret_def)

lemma behaves_throw: "e \<in> E \<Longrightarrow> behaves E (throw e)"
  by (simp add: behaves_def throw_def)

lemma behaves_get: "behaves E get"
  by (simp add: behaves_def get_def)

lemma behaves_modify: "(\<And>v. p_history (f v) = p_history v) \<Longrightarrow> behaves E (modify f)"
  by (simp add: behaves_def modify_def)

lemma behaves_p_emit: "\<not> p_gave_up a \<Longrightarrow> behaves E (p_emit a)"
  by (simp add: behaves_def p_emit_def modify_def)

lemma behaves_mono: "behaves E p \<Longrightarrow> E \<subseteq> E' \<Longrightarrow> behaves E' p"
  unfolding behaves_def by blast

lemma behaves_bnd:
  assumes "behaves E p" and "\<And>x. behaves E (k x)"
  shows "behaves E (bnd p k)"
  unfolding behaves_def
proof (intro allI)
  fix v
  obtain r v1 where pv: "p v = (r, v1)" by (cases "p v")
  from assms(1) pv obtain new1 where
    r: "(\<exists>x. r = Return x) \<or> (\<exists>e\<in>E. r = Raise e)"
    and h1: "p_history v1 = p_history v @ new1" "plain new1"
    unfolding behaves_def by (metis fst_conv snd_conv)
  from r show "((\<exists>x. fst (bnd p k v) = Return x) \<or> (\<exists>e\<in>E. fst (bnd p k v) = Raise e))
      \<and> (\<exists>new. p_history (snd (bnd p k v)) = p_history v @ new \<and> plain new)"
  proof
    assume "\<exists>x. r = Return x"
    then obtain x where x: "r = Return x" ..
    from assms(2) [of x] obtain new2 where
      "(\<exists>y. fst (k x v1) = Return y) \<or> (\<exists>e\<in>E. fst (k x v1) = Raise e)"
      "p_history (snd (k x v1)) = p_history v1 @ new2" "plain new2"
      unfolding behaves_def by blast
    then show ?thesis using pv x h1 by (simp add: bnd_def)
  next
    assume "\<exists>e\<in>E. r = Raise e"
    then show ?thesis using pv h1 by (auto simp add: bnd_def)
  qed
qed

lemma behaves_seq: "behaves E p \<Longrightarrow> behaves E q \<Longrightarrow> behaves E (seq p q)"
  unfolding seq_def by (rule behaves_bnd)

lemma behaves_try_except:
  assumes "behaves E' p" and "\<And>e. e \<in> E' \<Longrightarrow> behaves E (h e)"
  shows "behaves E (try_except p h)"
  unfolding behaves_def
proof (intro allI)
  fix v
  obtain r v1 where pv: "p v = (r, v1)" by (cases "p v")
  from assms(1) pv obtain new1 where
    r: "(\<exists>x. r = Return x) \<or> (\<exists>e\<in>E'. r = Raise e)"
    and h1: "p_history v1 = p_history v @ new1" "plain new1"
    unfolding behaves_def by (metis fst_conv snd_conv)
  from r show "((\<exists>x. fst (try_except p h v) = Return x)
        \<or> (\<exists>e\<in>E. fst (try_except p h v) = Raise e))
      \<and> (\<exists>new. p_history (snd (try_except p h v)) = p_history v @ new \<and> plain new)"
  proof
    assume "\<exists>x. r = Return x"
    then show ?thesis using pv h1 by (auto simp add: try_except_def)
  next
    assume "\<exists>e\<in>E'. r = Raise e"
    then obtain e where e: "e \<in> E'" "r = Raise e" by blast
    from assms(2) [OF e(1)] obtain new2 where
      "(\<exists>y. fst (h e v1) = Return y) \<or> (\<exists>e'\<in>E. fst (h e v1) = Raise e')"
      "p_history (snd (h e v1)) = p_history v1 @ new2" "plain new2"
      unfolding behaves_def by blast
    then show ?thesis using pv e h1 by (simp add: try_except_def)
  qed
qed

lemma behaves_if: "behaves E p \<Longrightarrow> behaves E q \<Longrightarrow> behaves E (if b then p else q)"
  by simp

lemma behaves_only_if: "behaves E p \<Longrightarrow> behaves E (only_if b p)"
  by (simp add: only_if_def behaves_ret)

lemma behaves_external: "OtherError \<in> E \<Longrightarrow> behaves E (external a)"
  by (cases a) (simp_all add: external_def behaves_ret behaves_throw)

lemma behaves_p_call: "OtherError \<in> E \<Longrightarrow> \<not> p_gave_up a \<Longrightarrow> behaves E (p_call a raises)"
  by (simp add: p_call_def behaves_seq behaves_p_emit behaves_throw behaves_ret)

lemmas behaves_intros = behaves_ret behaves_throw behaves_get behaves_modify behaves_p_emit
  behaves_bnd behaves_seq behaves_if behaves_only_if behaves_external behaves_p_call

subsection \<open>The functions of the patch\<close>

lemma behaves_init_attempts: "behaves {} (init_attempts raises xs)"
proof (induction xs)
  case Nil
  show ?case by (simp add: behaves_ret)
next
  case (Cons attempt rest)
  have "behaves {} (try_except
            (seq (p_call Construct (raises attempt))
            (seq (modify (\<lambda>v. v\<lparr>p_recorder := Some AudioToTextRecorder\<rparr>))
                 (ret True)))
            (\<lambda>e. seq (p_emit (Log ''Failed to initialize recorder''))
                (seq (only_if (attempt < max_retries - 1) (p_emit (Sleep 2)))
                     (ret False))))"
    by (rule behaves_try_except [where E' = UNIV])
       (intro behaves_intros; simp add: p_gave_up_def)+
  then show ?case using Cons.IH
    by (simp add: behaves_bnd behaves_ret)
qed

lemma behaves_initialize: "behaves {} (initialize_recorder_with_retry raises)"
  by (simp add: initialize_recorder_with_retry_def behaves_init_attempts)

lemma behaves_patch_process_text: "behaves {} (patch_process_text c)"
  unfolding patch_process_text_def
  by (rule behaves_try_except [where E' = UNIV])
     (intro behaves_intros; simp add: p_gave_up_def)+

lemma behaves_run_callbacks: "behaves {} (run_callbacks cs)"
  by (induction cs) (simp_all add: behaves_ret behaves_seq behaves_patch_process_text)

lemma behaves_transcribe: "behaves {} (transcribe_with_timeout w)"
  unfolding transcribe_with_timeout_def recorder_text_def
  by (rule behaves_try_except [where E' = UNIV])
     (intro behaves_intros behaves_mono [OF behaves_run_callbacks];
      simp add: p_gave_up_def)+

lemma behaves_submit: "behaves {TimeoutError} (submit_transcription w)"
  unfolding submit_transcription_def
  by (intro behaves_intros behaves_mono [OF behaves_run_callbacks]
        behaves_mono [OF behaves_transcribe]; simp add: p_gave_up_def)

lemma behaves_patch_recover: "behaves {} (patch_recover_recorder env)"
  unfolding patch_recover_recorder_def
  apply (intro behaves_try_except [where E' = UNIV] behaves_intros
      behaves_mono [OF behaves_initialize])
  apply (simp_all add: p_gave_up_def)
  done

lemma recover_or_leave_result:
  "fst (recover_or_leave env message v) =
     Return (if fst (patch_recover_recorder env v) = Return True then Again else Leave)"
proof -
  obtain b v1 where "patch_recover_recorder env v = (Return b, v1)"
    using behaves_patch_recover [of env, unfolded behaves_def]
    by (metis empty_iff prod.collapse)
  then show ?thesis by (simp add: recover_or_leave_def prog_defs p_emit_def)
qed

lemma shaped_recover_or_leave:
  assumes "p_gave_up (Log message)"
  shows "shaped E (recover_or_leave env message)"
  unfolding shaped_def
proof (intro allI)
  fix v
  obtain b v1 new where r: "patch_recover_recorder env v = (Return b, v1)"
    and h: "p_history v1 = p_history v @ new" "plain new"
    using behaves_patch_recover [of env, unfolded behaves_def]
    by (metis empty_iff prod.collapse)
  show "\<exists>new. plain new \<and>
        (((fst (recover_or_leave env message v) = Return Again
            \<or> (\<exists>e\<in>E. fst (recover_or_leave env message v) = Raise e))
           \<and> p_history (snd (recover_or_leave env message v)) = p_history v @ new)
         \<or> (\<exists>message'. fst (recover_or_leave env message v) = Return Leave
               \<and> p_gave_up (Log message')
               \<and> p_history (snd (recover_or_leave env message v)) =
                   p_history v @ new @ [Log message']))"
    using r h assms
    by (intro exI [of _ new]) (simp add: recover_or_leave_def prog_defs p_emit_def)
qed

subsection \<open>Pieces that end an iteration\<close>

lemma shaped_ret_again: "shaped E (ret Again)"
  by (simp add: shaped_def ret_def)

lemma shaped_bnd:
  assumes "behaves E p" and "\<And>x. shaped E (k x)"
  shows "shaped E (bnd p k)"
  unfolding shaped_def
proof (intro allI)
  fix v
  obtain r v1 where pv: "p v = (r, v1)" by (cases "p v")
  from assms(1) pv obtain new1 where
    r: "(\<exists>x. r = Return x) \<or> (\<exists>e\<in>E. r = Raise e)"
    and h1: "p_history v1 = p_history v @ new1" "plain new1"
    unfolding behaves_def by (metis fst_conv snd_conv)
  from r show "\<exists>new. plain new \<and>
        (((fst (bnd p k v) = Return Again \<or> (\<exists>e\<in>E. fst (bnd p k v) = Raise e))
           \<and> p_history (snd (bnd p k v)) = p_history v @ new)
         \<or> (\<exists>message. fst (bnd p k v) = Return Leave \<and> p_gave_up (Log message)
               \<and> p_history (snd (bnd p k v)) = p_history v @ new @ [Log message]))"
  proof
    assume "\<exists>x. r = Return x"
    then obtain x where x: "r = Return x" ..
    have eq: "bnd p k v = k x v1" using pv x by (simp add: bnd_def)
    from assms(2) [of x, unfolded shaped_def] obtain new2 where
      n2: "plain new2"
        "((fst (k x v1) = Return Again \<or> (\<exists>e\<in>E. fst (k x v1) = Raise e))
           \<and> p_history (snd (k x v1)) = p_history v1 @ new2)
         \<or> (\<exists>message. fst (k x v1) = Return Leave \<and> p_gave_up (Log message)
               \<and> p_history (snd (k x v1)) = p_history v1 @ new2 @ [Log message])"
      by blast
    show ?thesis unfolding eq using n2 h1
      by (intro exI [of _ "new1 @ new2"]) auto
  next
    assume "\<exists>e\<in>E. r = Raise e"
    then show ?thesis using pv h1 by (intro exI [of _ new1]) (auto simp add: bnd_def)
  qed
qed

lemma shaped_seq: "behaves E p \<Longrightarrow> shaped E q \<Longrightarrow> shaped E (seq p q)"
  unfolding seq_def by (rule shaped_bnd)

lemma shaped_if: "shaped E p \<Longrightarrow> shaped E q \<Longrightarrow> shaped E (if b then p else q)"
  by simp

lemma shaped_try_except:
  assumes "shaped E' p" and "\<And>e. e \<in> E' \<Longrightarrow> shaped E (h e)"
  shows "shaped E (try_except p h)"
  unfolding shaped_def
proof (intro allI)
  fix v
  from assms(1) [unfolded shaped_def] obtain new1 where
    n1: "plain new1"
      "((fst (p v) = Return Again \<or> (\<exists>e\<in>E'. fst (p v) = Raise e))
           \<and> p_history (snd (p v)) = p_history v @ new1)
         \<or> (\<exists>message. fst (p v) = Return Leave \<and> p_gave_up (Log message)
               \<and> p_history (snd (p v)) = p_history v @ new1 @ [Log message])"
    by blast
  obtain r v1 where pv: "p v = (r, v1)" by (cases "p v")
  show "\<exists>new. plain new \<and>
        (((fst (try_except p h v) = Return Again
            \<or> (\<exists>e\<in>E. fst (try_except p h v) = Raise e))
           \<and> p_history (snd (try_except p h v)) = p_history v @ new)
         \<or> (\<exists>message. fst (try_except p h v) = Return Leave \<and> p_gave_up (Log message)
               \<and> p_history (snd (try_except p h v)) = p_history v @ new @ [Log message]))"
  proof (cases "\<exists>e\<in>E'. r = Raise e")
    case True
    then obtain e where e: "e \<in> E'" "r = Raise e" by blast
    have eq: "try_except p h v = h e v1" using pv e by (simp add: try_except_def)
    have h1: "p_history v1 = p_history v @ new1" using n1 pv e by simp
    from assms(2) [OF e(1), unfolded shaped_def] obtain new2 where
      n2: "plain new2"
        "((fst (h e v1) = Return Again \<or> (\<exists>e'\<in>E. fst (h e v1) = Raise e'))
           \<and> p_history (snd (h e v1)) = p_history v1 @ new2)
         \<or> (\<exists>message. fst (h e v1) = Return Leave \<and> p_gave_up (Log message)
               \<and> p_history (snd (h e v1)) = p_history v1 @ new2 @ [Log message])"
      by blast
    show ?thesis unfolding eq using n1(1) n2 h1
      by (intro exI [of _ "new1 @ new2"]) auto
  next
    case False
    then have "try_except p h v = p v" using n1 pv
      by (auto simp add: try_except_def)
    then show ?thesis using n1 pv False
      by (intro exI [of _ new1]) auto
  qed
qed

lemma shaped_then:
  assumes "shaped E p" and "behaves E q"
  shows "shaped E (bnd p (\<lambda>j. case j of Leave \<Rightarrow> ret Leave | Again \<Rightarrow> seq q (ret Again)))"
  unfolding shaped_def
proof (intro allI)
  fix v
  let ?k = "\<lambda>j. case j of Leave \<Rightarrow> ret Leave | Again \<Rightarrow> seq q (ret Again)"
  from assms(1) [unfolded shaped_def] obtain new1 where
    n1: "plain new1"
      "((fst (p v) = Return Again \<or> (\<exists>e\<in>E. fst (p v) = Raise e))
           \<and> p_history (snd (p v)) = p_history v @ new1)
         \<or> (\<exists>message. fst (p v) = Return Leave \<and> p_gave_up (Log message)
               \<and> p_history (snd (p v)) = p_history v @ new1 @ [Log message])"
    by blast
  obtain r v1 where pv: "p v = (r, v1)" by (cases "p v")
  show "\<exists>new. plain new \<and>
        (((fst (bnd p ?k v) = Return Again \<or> (\<exists>e\<in>E. fst (bnd p ?k v) = Raise e))
           \<and> p_history (snd (bnd p ?k v)) = p_history v @ new)
         \<or> (\<exists>message. fst (bnd p ?k v) = Return Leave \<and> p_gave_up (Log message)
               \<and> p_history (snd (bnd p ?k v)) = p_history v @ new @ [Log message]))"
  proof (cases "r = Return Again")
    case True
    have eq: "bnd p ?k v = seq q (ret Again) v1" using pv True by (simp add: bnd_def)
    have h1: "p_history v1 = p_history v @ new1" using n1 pv True by simp
    obtain r2 v2 where qv: "q v1 = (r2, v2)" by (cases "q v1")
    from assms(2) [unfolded behaves_def] qv obtain new2 where
      n2: "(\<exists>x. r2 = Return x) \<or> (\<exists>e\<in>E. r2 = Raise e)"
        "p_history v2 = p_history v1 @ new2" "plain new2"
      by (metis fst_conv snd_conv)
    show ?thesis unfolding eq using n1(1) n2 h1 qv
      by (intro exI [of _ "new1 @ new2"]) (auto simp add: seq_def bnd_def ret_def)
  next
    case False
    then have "bnd p ?k v = p v" using n1 pv
      by (auto simp add: bnd_def ret_def)
    then show ?thesis using n1 pv False
      by (intro exI [of _ new1]) auto
  qed
qed

lemma shaped_submitted:
  "shaped {TimeoutError}
     (bnd (submit_transcription w) (\<lambda>success.
        seq (only_if (\<not> success)
               (seq (modify (\<lambda>v. v\<lparr>p_consecutive_failures :=
                                      p_consecutive_failures v + 1\<rparr>))
                    (p_emit (Log ''Transcription failed''))))
            (ret Again)))"
  apply (intro shaped_bnd [OF behaves_submit] shaped_seq shaped_ret_again behaves_only_if
      behaves_seq behaves_modify behaves_p_emit)
  apply (simp_all add: p_gave_up_def)
  done

lemma shaped_timed_out:
  "shaped {}
     (seq (p_emit (Log ''Transcription timed out''))
     (seq (modify (\<lambda>v. v\<lparr>p_consecutive_failures := p_consecutive_failures v + 1\<rparr>))
     (seq (p_emit Cancel)
          (recover_or_leave env ''Could not recover after timeout''))))"
  apply (intro shaped_seq shaped_recover_or_leave behaves_modify behaves_p_emit)
  apply (simp_all add: p_gave_up_def)
  done

lemma shaped_patch_loop_body: "shaped {} (patch_loop_body e)"
  unfolding patch_loop_body_def
  apply (intro shaped_bnd [OF behaves_get] shaped_if shaped_seq shaped_then
      shaped_recover_or_leave behaves_p_emit behaves_seq behaves_modify behaves_ret
      shaped_try_except [where E' = "{TimeoutError}"] shaped_submitted allI)
  apply (simp_all add: p_gave_up_def shaped_timed_out)
  done

subsection \<open>The loop and the thread\<close>

lemma p_calm_append_plain: "plain xs \<Longrightarrow> p_calm (xs @ ys) = p_calm ys"
  by (induction xs) auto

lemma p_calm_plain: "plain xs \<Longrightarrow> p_calm xs"
  by (induction xs) auto

lemma p_calm_append_unmarked:
  "recover_marker \<notin> set ys \<Longrightarrow> p_calm ys \<Longrightarrow> p_calm (xs @ ys) = p_calm xs"
  by (induction xs) auto

lemma patch_loop_Cons:
  "patch_loop (e # es) v =
     (let v0 = (if p_stop_called e then v\<lparr>p_stop_recorder := True\<rparr> else v) in
      if p_stop_recorder v0 then (Return Stopped, v0)
      else case patch_loop_body e v0 of
             (Return Leave, v1) \<Rightarrow> (Return Failed, v1)
           | (Return Again, v1) \<Rightarrow> patch_loop es v1
           | (Raise x, v1) \<Rightarrow> (Raise x, v1)
           | (Unfinished, v1) \<Rightarrow> (Unfinished, v1))"
  by (simp add: prog_defs Let_def split: prod.splits result.splits jump.splits)

lemma patch_loop_plain:
  "plain (p_history v) \<Longrightarrow>
     (fst (patch_loop es v) = Unfinished \<or> fst (patch_loop es v) = Return Stopped
        \<or> fst (patch_loop es v) = Return Failed)
     \<and> p_calm (p_history (snd (patch_loop es v)))
     \<and> (plain (p_history (snd (patch_loop es v))) = (fst (patch_loop es v) \<noteq> Return Failed))
     \<and> (\<exists>new. p_history (snd (patch_loop es v)) = p_history v @ new)
     \<and> ((\<exists>e\<in>set es. p_stop_called e) \<longrightarrow> fst (patch_loop es v) \<noteq> Unfinished)"
proof (induction es arbitrary: v)
  case Nil
  then show ?case by (simp add: p_calm_plain)
next
  case (Cons e es)
  define v0 where "v0 = (if p_stop_called e then v\<lparr>p_stop_recorder := True\<rparr> else v)"
  have h0: "p_history v0 = p_history v" by (simp add: v0_def)
  have st: "p_stop_called e \<Longrightarrow> p_stop_recorder v0" by (simp add: v0_def)
  have step: "patch_loop (e # es) v =
      (if p_stop_recorder v0 then (Return Stopped, v0)
       else case patch_loop_body e v0 of
             (Return Leave, v1) \<Rightarrow> (Return Failed, v1)
           | (Return Again, v1) \<Rightarrow> patch_loop es v1
           | (Raise x, v1) \<Rightarrow> (Raise x, v1)
           | (Unfinished, v1) \<Rightarrow> (Unfinished, v1))"
    unfolding patch_loop_Cons v0_def Let_def ..
  show ?case
  proof (cases "p_stop_recorder v0")
    case True
    then show ?thesis unfolding step using Cons.prems h0 by (simp add: p_calm_plain)
  next
    case False
    obtain r1 v1 where b: "patch_loop_body e v0 = (r1, v1)" by (cases "patch_loop_body e v0")
    from shaped_patch_loop_body [of e, unfolded shaped_def] b obtain new where
      n: "plain new"
        "(r1 = Return Again \<and> p_history v1 = p_history v0 @ new)
         \<or> (\<exists>message. r1 = Return Leave \<and> p_gave_up (Log message)
               \<and> p_history v1 = p_history v0 @ new @ [Log message])"
      by (metis empty_iff fst_conv snd_conv)
    from n(2) show ?thesis
    proof
      assume a: "r1 = Return Again \<and> p_history v1 = p_history v0 @ new"
      then have eq: "patch_loop (e # es) v = patch_loop es v1"
        unfolding step using False b by simp
      have "plain (p_history v1)" using a n(1) Cons.prems h0 by simp
      from Cons.IH [OF this] a h0 False st show ?thesis unfolding eq by auto
    next
      assume "\<exists>message. r1 = Return Leave \<and> p_gave_up (Log message)
               \<and> p_history v1 = p_history v0 @ new @ [Log message]"
      then obtain message where l: "r1 = Return Leave" "p_gave_up (Log message)"
        "p_history v1 = p_history v0 @ new @ [Log message]" by blast
      have eq: "patch_loop (e # es) v = (Return Failed, v1)"
        unfolding step using False b l(1) by simp
      have "p_calm (p_history v1)"
        using Cons.prems n(1) h0 l
        by (simp add: p_calm_append_plain)
      then show ?thesis unfolding eq using l h0 by simp
    qed
  qed
qed

text \<open>What the retries, the recovery and the cleanup of the patch do.\<close>

lemma range_max_retries: "[0..<max_retries] = [0, 1, 2]"
  by (simp add: max_retries_def upt_rec)

lemma below_max_retries: "(k < max_retries) = (k = 0 \<or> k = 1 \<or> k = 2)"
  unfolding max_retries_def by arith

lemma initialize_with_retry_eq:
  "initialize_recorder_with_retry raises v =
     (Return (\<not> raises 0 \<or> \<not> raises 1 \<or> \<not> raises 2),
      v\<lparr>p_recorder := (if \<not> raises 0 \<or> \<not> raises 1 \<or> \<not> raises 2
                        then Some AudioToTextRecorder else p_recorder v),
        p_history := p_history v @
          (if \<not> raises 0 then [Construct]
           else Construct # Log ''Failed to initialize recorder'' # Sleep 2 #
             (if \<not> raises 1 then [Construct]
              else Construct # Log ''Failed to initialize recorder'' # Sleep 2 #
                (if \<not> raises 2 then [Construct]
                 else [Construct, Log ''Failed to initialize recorder''])))\<rparr>)"
  unfolding initialize_recorder_with_retry_def range_max_retries
  by (simp add: prog_defs patch_defs max_retries_def)

lemma patch_recover_result:
  "fst (patch_recover_recorder env v) =
     Return ((\<exists>k<max_retries. \<not> attempt_raises env k)
             \<and> (p_recorder v = None \<or> (\<not> p_abort_raises env \<and> \<not> p_clear_raises env)))"
proof -
  have "(\<exists>k<max_retries. \<not> attempt_raises env k) =
      (\<not> attempt_raises env 0 \<or> \<not> attempt_raises env 1 \<or> \<not> attempt_raises env 2)"
    unfolding below_max_retries by blast
  then show ?thesis
    by (cases "p_recorder v")
       (simp_all add: patch_recover_recorder_def initialize_with_retry_eq prog_defs patch_defs)
qed

text \<open>
  The patch's \<open>recover_recorder\<close> leaves its counter as it was, or adds one when
  \<open>abort\<close> or \<open>clear_audio_queue\<close> raises.
\<close>

lemma patch_recover_failures:
  "p_consecutive_failures (snd (patch_recover_recorder env v)) =
     p_consecutive_failures v +
       (if p_recorder v \<noteq> None \<and> (p_abort_raises env \<or> p_clear_raises env) then 1 else 0)"
  by (cases "p_recorder v")
     (simp_all add: patch_recover_recorder_def initialize_with_retry_eq prog_defs patch_defs)

lemma patch_cleanup_eq:
  "patch_cleanup env v =
     (Return (), v\<lparr>p_history := p_history v @
         patch_cleanup_trail (p_recorder v \<noteq> None) env\<rparr>)"
  by (cases "p_recorder v")
     (simp_all add: patch_cleanup_def prog_defs patch_defs patch_cleanup_trail_def)

lemma patch_cleanup_trail_plain:
  "plain (patch_cleanup_trail b env) \<and> recover_marker \<notin> set (patch_cleanup_trail b env)
   \<and> p_calm (patch_cleanup_trail b env)"
  by (simp add: patch_cleanup_trail_def p_gave_up_def recover_marker_def)

lemma thread_outcome:
  assumes "plain (p_history v)"
  shows "p_calm (p_history (snd (enhanced_recorder_thread env v)))
    \<and> (plain (p_history (snd (enhanced_recorder_thread env v)))
        \<or> fst (enhanced_recorder_thread env v) = Return Failed)"
proof -
  define ok where "ok = (\<not> first_attempts_raise env 0 \<or> \<not> first_attempts_raise env 1
      \<or> \<not> first_attempts_raise env 2)"
  obtain v1 where i: "initialize_recorder_with_retry (first_attempts_raise env) v = (Return ok, v1)"
    and p1: "plain (p_history v1)"
    using assms by (simp add: initialize_with_retry_eq ok_def p_gave_up_def)
  show ?thesis
  proof (cases ok)
    case False
    then show ?thesis using i p1
      by (simp add: enhanced_recorder_thread_def prog_defs patch_defs p_gave_up_def
            p_calm_plain)
  next
    case True
    define v2 where "v2 = v1\<lparr>p_history := p_history v1 @ [RecorderReady]\<rparr>"
    have p2: "plain (p_history v2)" using p1 by (simp add: v2_def p_gave_up_def)
    note L = patch_loop_plain [OF p2, of "p_cycles env"]
    define R where "R = patch_loop (p_cycles env) v2"
    have eq: "enhanced_recorder_thread env v =
        try_finally (patch_loop (p_cycles env)) (patch_cleanup (p_at_cleanup env)) v2"
      using i True by (simp add: enhanced_recorder_thread_def prog_defs patch_defs v2_def)
    have fin: "enhanced_recorder_thread env v =
        (if fst R = Unfinished then R
         else (fst R, (snd R)\<lparr>p_history := p_history (snd R) @
                 patch_cleanup_trail (p_recorder (snd R) \<noteq> None) (p_at_cleanup env)\<rparr>))"
      unfolding eq R_def [symmetric]
      by (cases R; cases "fst R") (simp_all add: try_finally_def R_def [symmetric]
            patch_cleanup_eq)
    show ?thesis using L unfolding fin R_def [symmetric]
      by (auto simp add: patch_cleanup_trail_plain p_calm_append_unmarked)
  qed
qed

text \<open>The run whose recovery fails ends as failed.\<close>

lemma run_hopeless: "fst (run hopeless_run (init_manager 0)) = Return Failed"
  by (simp add: run_def hopeless_run_def hopeless_recovery_def timeout_cycle_def
        calm_recovery_def calm_cleanup_def init_manager_def
        loop_body_def health_phase_def unit_phase_def health_check_def
        process_text_with_timeout_def submit_and_wait_def recover_recorder_def
        initialize_recorder_def cleanup_def stop_def prog_defs mgr_defs)

text \<open>A failed recovery of \<open>RecorderManager\<close> shows in the log.\<close>

lemma recover_gave_up:
  "(fst (recover_recorder env m) = Return True) =
     list_all (\<lambda>a. \<not> gave_up a)
       (drop (length (actions m)) (actions (snd (recover_recorder env m))))"
proof (cases "recorder m = None")
  case True
  then show ?thesis
    by (simp add: recover_absent actions_def comp_def gave_up_def recover_marker_def)
next
  case False
  then show ?thesis
    by (simp add: recover_present actions_def comp_def recovery_trail_quiet)
qed

section \<open>The health check\<close>

text \<open>
  C5. For every manager state and clock reading, \<open>health_check\<close> returns
  \<open>False\<close> (unhealthy) exactly when a unit of work is being processed and more than
  \<open>transcription_timeout\<close> has passed since \<open>last_activity_time\<close>, or
  \<open>consecutive_failures\<close> has reached \<open>max_consecutive_failures\<close>; it
  leaves every field of the manager as it was (it only writes a log line).
\<close>

theorem health_check_verdict:
  "fst (health_check now m) =
     Return (\<not> ((is_processing m \<and> now - last_activity_time m > transcription_timeout m)
                \<or> consecutive_failures m \<ge> max_consecutive_failures m))
   \<and> (snd (health_check now m))\<lparr>history := history m\<rparr> = m"
  by (simp add: health_check_def prog_defs emit_def)

section \<open>The failure counter after a success\<close>

text \<open>
  C1. In \<open>RecorderManager\<close>, whatever the counter was before:
  \<open>process_text_with_timeout\<close> returns \<open>True\<close> exactly when a recorder is
  present and the unit of work completes, and then \<open>consecutive_failures\<close> is 0;
  \<open>recover_recorder\<close> returns \<open>True\<close> exactly when none of its steps raises,
  and then \<open>consecutive_failures\<close> is 0.
\<close>

theorem failures_reset_on_success:
  "(fst (process_text_with_timeout now outcome m) = Return True)
      = (recorder m \<noteq> None \<and> outcome = Completed)
   \<and> (fst (process_text_with_timeout now outcome m) = Return True \<longrightarrow>
        consecutive_failures (snd (process_text_with_timeout now outcome m)) = 0)
   \<and> (fst (recover_recorder env m) = Return True)
      = (if recorder m = None then \<not> construct_raises env else recovery_ok env)
   \<and> (fst (recover_recorder env m) = Return True \<longrightarrow>
        consecutive_failures (snd (recover_recorder env m)) = 0)"
proof (cases "recorder m")
  case None
  then show ?thesis by (simp add: ptwt_absent recover_absent)
next
  case (Some r)
  then have "recorder m \<noteq> None" by simp
  with Some show ?thesis by (simp add: ptwt_present recover_present)
qed

text \<open>
  The theorem at a unit of work that completes after two failures, and at a recovery
  that succeeds with the counter at the threshold.
\<close>

theorem failures_reset_on_success_witness:
  "fst (process_text_with_timeout 5 Completed ((started 0)\<lparr>consecutive_failures := 2\<rparr>))
      = Return True
   \<and> consecutive_failures (snd (process_text_with_timeout 5 Completed
        ((started 0)\<lparr>consecutive_failures := 2\<rparr>))) = 0
   \<and> fst (recover_recorder calm_recovery ((started 0)\<lparr>consecutive_failures := 3\<rparr>))
      = Return True
   \<and> consecutive_failures (snd (recover_recorder calm_recovery
        ((started 0)\<lparr>consecutive_failures := 3\<rparr>))) = 0"
proof -
  note T = failures_reset_on_success [of 5 Completed
      "(started 0)\<lparr>consecutive_failures := 2\<rparr>" calm_recovery]
  note U = failures_reset_on_success [of 5 Completed
      "(started 0)\<lparr>consecutive_failures := 3\<rparr>" calm_recovery]
  have r: "recorder (started 0) = Some AudioToTextRecorder"
    by (simp add: started_def)
  have c: "recovery_ok calm_recovery"
    by (simp add: recovery_ok_def calm_recovery_def)
  from T U r c show ?thesis by simp
qed

section \<open>The failure counter and the recovery threshold\<close>

text \<open>
  C2. A manager is built with \<open>max_consecutive_failures = 3\<close>. In every run of
  \<open>RecorderManager.run\<close>, whatever the units of work, the recoveries and the clock
  do, each call of \<open>recover_recorder\<close> starts with \<open>consecutive_failures = 3\<close>
  and each unit of work is submitted with \<open>consecutive_failures < 3\<close>: the counter
  never passes the threshold before the recovery is called. Three units of work in a row
  that time out (or fail otherwise, with nobody calling \<open>stop\<close>) cause exactly one
  call of \<open>recover_recorder\<close>, wherever in a run they come: after the iterations
  \<open>pre\<close>, when these have not left the loop, and in particular at the start of a
  run.
\<close>

theorem run_recovers_once_at_threshold:
  "max_consecutive_failures (init_manager t) = 3
   \<and> list_all (\<lambda>ev. (fst ev = Log ''Attempting to recover recorder...''
                        \<longrightarrow> seen_failures (snd ev) = 3)
                   \<and> (fst ev = Submit \<longrightarrow> seen_failures (snd ev) < 3))
        (history (snd (run env (init_manager t))))
   \<and> (fst (run (env\<lparr>cycles := pre\<rparr>) (init_manager t)) = Unfinished
        \<and> length streak = 3
        \<and> (\<forall>e\<in>set streak. unit_result e \<noteq> Completed \<and> \<not> stop_called e)
      \<longrightarrow> recoveries (actions (snd (run (env\<lparr>cycles := pre @ streak\<rparr>) (init_manager t))))
          = recoveries (actions (snd (run (env\<lparr>cycles := pre\<rparr>) (init_manager t)))) + 1)
   \<and> (\<not> first_construct_raises env \<and> cycles env = [e1, e2, e3]
        \<and> (\<forall>e\<in>set (cycles env). unit_result e = TimedOut \<and> \<not> stop_called e)
      \<longrightarrow> recoveries (actions (snd (run env (init_manager t)))) = 1)"
proof -
  have "list_all (event_ok 3) (history (snd (run env (init_manager t))))"
    by (rule run_event_ok)
  then have "list_all (\<lambda>ev. (fst ev = Log ''Attempting to recover recorder...''
                        \<longrightarrow> seen_failures (snd ev) = 3)
                   \<and> (fst ev = Submit \<longrightarrow> seen_failures (snd ev) < 3))
        (history (snd (run env (init_manager t))))"
    by (simp add: list_all_iff event_ok_def recover_marker_def)
  moreover have "recoveries (actions (snd (run env (init_manager t)))) = 1"
    if "\<not> first_construct_raises env" "cycles env = [e1, e2, e3]"
       "\<forall>e\<in>set (cycles env). unit_result e = TimedOut \<and> \<not> stop_called e"
    using that by (intro run_three_failures [of env e1 e2 e3]) (simp_all add: failed_unit_def)
  moreover have
    "recoveries (actions (snd (run (env\<lparr>cycles := pre @ streak\<rparr>) (init_manager t))))
       = recoveries (actions (snd (run (env\<lparr>cycles := pre\<rparr>) (init_manager t)))) + 1"
    if "fst (run (env\<lparr>cycles := pre\<rparr>) (init_manager t)) = Unfinished"
       "length streak = 3"
       "\<forall>e\<in>set streak. unit_result e \<noteq> Completed \<and> \<not> stop_called e"
    using that by (intro run_window) simp_all
  moreover have "max_consecutive_failures (init_manager t) = 3"
    by (simp add: init_manager_def)
  ultimately show ?thesis by blast
qed

text \<open>
  The theorem at a run of three timeouts, 30 seconds apart: one recovery. And at three
  timeouts that follow a first one, so that they begin with the counter at 1: the
  recovery comes at the second of them and there is no other.
\<close>

theorem run_recovers_once_at_threshold_witness:
  "recoveries (actions (snd (run three_timeouts (init_manager 0)))) = 1
   \<and> list_all (\<lambda>ev. fst ev \<noteq> Submit \<or> seen_failures (snd ev) < 3)
        (history (snd (run three_timeouts (init_manager 0))))
   \<and> fst (run (three_timeouts\<lparr>cycles := [timeout_cycle 0.1]\<rparr>) (init_manager 0)) = Unfinished
   \<and> recoveries (actions (snd (run (three_timeouts\<lparr>cycles := [timeout_cycle 0.1] @
          [timeout_cycle 30.2, timeout_cycle 60.3, timeout_cycle 90.4]\<rparr>) (init_manager 0))))
      = 1"
proof -
  note T = run_recovers_once_at_threshold [of 0 three_timeouts "[timeout_cycle 0.1]"
      "[timeout_cycle 30.2, timeout_cycle 60.3, timeout_cycle 90.4]"
      "timeout_cycle 0.1" "timeout_cycle 30.2" "timeout_cycle 60.3"]
  have c: "cycles three_timeouts = [timeout_cycle 0.1, timeout_cycle 30.2, timeout_cycle 60.3]"
    "\<not> first_construct_raises three_timeouts"
    by (simp_all add: three_timeouts_def)
  have u: "unit_result (timeout_cycle x) = TimedOut" "\<not> stop_called (timeout_cycle x)" for x
    by (simp_all add: timeout_cycle_def)
  have q: "fst (run (three_timeouts\<lparr>cycles := [timeout_cycle 0.1]\<rparr>) (init_manager 0))
        = Unfinished
      \<and> recoveries (actions (snd (run (three_timeouts\<lparr>cycles := [timeout_cycle 0.1]\<rparr>)
          (init_manager 0)))) = 0"
    by (simp add: run_def three_timeouts_def timeout_cycle_def calm_recovery_def
        calm_cleanup_def init_manager_def loop_body_def health_phase_def unit_phase_def
        health_check_def process_text_with_timeout_def submit_and_wait_def
        recover_recorder_def initialize_recorder_def cleanup_def stop_def prog_defs mgr_defs
        actions_def recover_marker_def)
  have "recoveries (actions (snd (run three_timeouts (init_manager 0)))) = 1"
    using T c u by simp
  moreover have "list_all (\<lambda>ev. fst ev \<noteq> Submit \<or> seen_failures (snd ev) < 3)
        (history (snd (run three_timeouts (init_manager 0))))"
    using T by (simp add: list_all_iff)
  moreover have "recoveries (actions (snd (run (three_timeouts\<lparr>cycles := [timeout_cycle 0.1] @
          [timeout_cycle 30.2, timeout_cycle 60.3, timeout_cycle 90.4]\<rparr>) (init_manager 0))))
      = 1"
    using T q u by simp
  ultimately show ?thesis using q by simp
qed

section \<open>The result of a recovery and the end of the loop\<close>

text \<open>
  C3, as amended. \<open>RecorderManager.recover_recorder\<close> returns \<open>True\<close>
  exactly when its one call of \<open>initialize_recorder\<close> is reached (no earlier step
  raised) and succeeds. The patch's \<open>recover_recorder\<close> returns \<open>True\<close>
  exactly when \<open>initialize_recorder_with_retry\<close> is reached and one of its at most
  \<open>max_retries = 3\<close> constructions succeeds; that function sleeps 2 seconds after
  each failed attempt but the last. A recovery of \<open>RecorderManager\<close> that returns
  \<open>False\<close> leaves a \<open>Recovery failed\<close> or
  \<open>Failed to initialize recorder\<close> line in the log, and in every run of
  \<open>run\<close> no recovery is started after such a line: the run has such a line exactly
  when it ends as failed. In the patch, the loop logs \<open>Could not recover ...\<close>
  exactly when \<open>recover_recorder\<close> returned \<open>False\<close>; no recovery is started
  after such a line, and a thread with such a line has ended as failed.
\<close>

theorem recovery_result_and_retries:
  "fst (recover_recorder env m) =
     Return (\<not> construct_raises env
             \<and> (recorder m = None
                \<or> (\<not> abort_raises env \<and> \<not> clear_raises env \<and> \<not> shutdown_raises env)))
   \<and> fst (patch_recover_recorder renv v) =
     Return ((\<exists>k<max_retries. \<not> attempt_raises renv k)
             \<and> (p_recorder v = None \<or> (\<not> p_abort_raises renv \<and> \<not> p_clear_raises renv)))
   \<and> max_retries = 3
   \<and> p_history (snd (initialize_recorder_with_retry raises v)) = p_history v @
       (if \<not> raises 0 then [Construct]
        else Construct # Log ''Failed to initialize recorder'' # Sleep 2 #
          (if \<not> raises 1 then [Construct]
           else Construct # Log ''Failed to initialize recorder'' # Sleep 2 #
             (if \<not> raises 2 then [Construct]
              else [Construct, Log ''Failed to initialize recorder''])))
   \<and> (fst (recover_recorder env m) = Return True) =
       list_all (\<lambda>a. \<not> gave_up a)
         (drop (length (actions m)) (actions (snd (recover_recorder env m))))
   \<and> calm (actions (snd (run renv' (init_manager t))))
   \<and> (\<exists>a\<in>set (actions (snd (run renv' (init_manager t)))). gave_up a) =
        (fst (run renv' (init_manager t)) = Return Failed
         \<or> fst (run renv' (init_manager t)) = Return InitFailed)
   \<and> fst (recover_or_leave renv message v) =
       Return (if fst (patch_recover_recorder renv v) = Return True then Again else Leave)
   \<and> (plain (p_history v) \<longrightarrow>
        p_calm (p_history (snd (enhanced_recorder_thread tenv v)))
        \<and> ((\<exists>a\<in>set (p_history (snd (enhanced_recorder_thread tenv v))). p_gave_up a) \<longrightarrow>
             fst (enhanced_recorder_thread tenv v) = Return Failed))"
proof -
  have a: "fst (recover_recorder env m) =
     Return (\<not> construct_raises env
             \<and> (recorder m = None
                \<or> (\<not> abort_raises env \<and> \<not> clear_raises env \<and> \<not> shutdown_raises env)))"
    by (cases "recorder m = None")
       (auto simp add: recover_absent recover_present recovery_ok_def)
  have b: "p_history (snd (initialize_recorder_with_retry raises v)) = p_history v @
       (if \<not> raises 0 then [Construct]
        else Construct # Log ''Failed to initialize recorder'' # Sleep 2 #
          (if \<not> raises 1 then [Construct]
           else Construct # Log ''Failed to initialize recorder'' # Sleep 2 #
             (if \<not> raises 2 then [Construct]
              else [Construct, Log ''Failed to initialize recorder''])))"
    by (simp add: initialize_with_retry_eq)
  have c: "plain (p_history v) \<longrightarrow>
        p_calm (p_history (snd (enhanced_recorder_thread tenv v)))
        \<and> ((\<exists>a\<in>set (p_history (snd (enhanced_recorder_thread tenv v))). p_gave_up a) \<longrightarrow>
             fst (enhanced_recorder_thread tenv v) = Return Failed)"
    using thread_outcome [of v tenv] by (auto simp add: plain_def list_all_iff)
  show ?thesis
    using a b c patch_recover_result [of renv v] recover_gave_up [of env m]
      run_outcome [of renv' t] recover_or_leave_result [of renv message v]
    by (simp add: max_retries_def)
qed

text \<open>
  The theorem at a run of \<open>RecorderManager\<close> whose recovery at the third timeout
  fails, and at a run of the patch whose recovery after the first timeout fails; in both
  a further iteration is on offer and is not used.
\<close>

theorem recovery_result_and_retries_witness:
  "(\<exists>a\<in>set (actions (snd (run hopeless_run (init_manager 0)))). gave_up a)
   \<and> fst (run hopeless_run (init_manager 0)) = Return Failed
   \<and> calm (actions (snd (run hopeless_run (init_manager 0))))
   \<and> Log ''Could not recover after timeout''
        \<in> set (p_history (snd (enhanced_recorder_thread patch_hopeless
              (thread_start None False 0))))
   \<and> fst (enhanced_recorder_thread patch_hopeless (thread_start None False 0))
        = Return Failed
   \<and> p_calm (p_history (snd (enhanced_recorder_thread patch_hopeless
        (thread_start None False 0))))"
proof -
  note T = recovery_result_and_retries [of calm_recovery "started 0" calm_retry
      "thread_start None False 0" "\<lambda>k. False" hopeless_run 0 "''x''" patch_hopeless]
  have f: "fst (run hopeless_run (init_manager 0)) = Return Failed" by (rule run_hopeless)
  have p: "plain (p_history (thread_start None False 0))"
    by (simp add: thread_start_def)
  have l: "Log ''Could not recover after timeout''
        \<in> set (p_history (snd (enhanced_recorder_thread patch_hopeless
              (thread_start None False 0))))"
    by (simp add: enhanced_recorder_thread_def patch_hopeless_def patch_cycle_def
        timed_out_work_def calm_retry_def failing_retry_def calm_cleanup_def
        thread_start_def patch_loop_body_def recover_or_leave_def
        patch_recover_recorder_def initialize_with_retry_eq submit_transcription_def
        patch_cleanup_def patch_transcription_timeout_def
        patch_max_consecutive_failures_def prog_defs patch_defs)
  have g: "p_gave_up (Log ''Could not recover after timeout'')"
    by (simp add: p_gave_up_def)
  from T p f l g show ?thesis by blast
qed

text \<open>
  C3 as stated fails for \<open>RecorderManager\<close>: its recovery constructs the recorder
  once and gives up, with no second attempt and no back-off.
\<close>

theorem manager_recovery_tries_once:
  "fst (recover_recorder hopeless_recovery (started 0)) = Return False
   \<and> actions (snd (recover_recorder hopeless_recovery (started 0))) =
       [Construct, Log ''Attempting to recover recorder...'', Abort, ClearAudioQueue,
        Sleep 1.0, Shutdown, Sleep 2.0, Construct, Log ''Failed to initialize recorder'']"
  by (simp add: recover_present recovery_ok_def recovery_trail_def recover_marker_def
        actions_def comp_def started_def hopeless_recovery_def calm_recovery_def)

section \<open>The steps of a recovery\<close>

text \<open>
  C4, as amended. \<open>RecorderManager.recover_recorder\<close>, called while there is a
  recorder, logs the attempt and calls \<open>abort\<close>, \<open>clear_audio_queue\<close>, sleeps
  1.0 s, calls \<open>shutdown\<close>, sleeps 2.0 s and constructs a new recorder, in this
  order, as long as no step raises. A step that raises ends the sequence: the failure is
  logged, the later steps are not run, and the result is \<open>False\<close>. The result is
  \<open>True\<close> exactly when no step raised.
\<close>

theorem recover_recorder_sequence:
  "recorder m \<noteq> None \<Longrightarrow>
   fst (recover_recorder env m) =
     Return (\<not> abort_raises env \<and> \<not> clear_raises env \<and> \<not> shutdown_raises env
             \<and> \<not> construct_raises env)
   \<and> actions (snd (recover_recorder env m)) = actions m @
     [Log ''Attempting to recover recorder...'', Abort] @
     (if abort_raises env then [Log ''Recovery failed''] else
      ClearAudioQueue # (if clear_raises env then [Log ''Recovery failed''] else
      Sleep 1.0 # Shutdown # (if shutdown_raises env then [Log ''Recovery failed''] else
      Sleep 2.0 # Construct #
        (if construct_raises env then [Log ''Failed to initialize recorder''] else []))))"
  by (simp add: recover_present recovery_ok_def recovery_trail_def recover_marker_def
        actions_def comp_def)

text \<open>The theorem at a recovery where every step answers normally.\<close>

theorem recover_recorder_sequence_witness:
  "actions (snd (recover_recorder calm_recovery (started 0))) =
     [Construct, Log ''Attempting to recover recorder...'', Abort, ClearAudioQueue,
      Sleep 1.0, Shutdown, Sleep 2.0, Construct]"
  using recover_recorder_sequence [of "started 0" calm_recovery]
  by (simp add: started_def calm_recovery_def actions_def)

text \<open>
  C4 as stated fails: when \<open>abort\<close> raises, neither the queue is cleared nor the
  recorder shut down or constructed anew.
\<close>

theorem recover_recorder_cut_short:
  "fst (recover_recorder (calm_recovery\<lparr>abort_raises := True\<rparr>) (started 0)) = Return False
   \<and> actions (snd (recover_recorder (calm_recovery\<lparr>abort_raises := True\<rparr>) (started 0))) =
     [Construct, Log ''Attempting to recover recorder...'', Abort, Log ''Recovery failed'']"
  by (simp add: recover_present recovery_ok_def recovery_trail_def recover_marker_def
        actions_def comp_def started_def calm_recovery_def)

section \<open>Cleanup when the loop is left\<close>

text \<open>
  C6, as amended. \<open>cleanup\<close> never raises. When the first initialization fails,
  \<open>run\<close> logs that and returns without calling \<open>cleanup\<close>. When it
  succeeds and the loop is left (the stop flag was seen or a recovery failed),
  \<open>run\<close> ends with \<open>cleanup\<close>: \<open>shutdown\<close> of the recorder first and,
  unless that raised, \<open>executor.shutdown(wait=True)\<close>; an exception of either is
  logged and not raised again. A call of \<open>stop\<close> makes the loop end.
\<close>

theorem cleanup_on_exit:
  "fst (cleanup cenv m) = Return ()
   \<and> (first_construct_raises env \<longrightarrow>
        fst (run env (init_manager t)) = Return InitFailed
        \<and> actions (snd (run env (init_manager t))) =
            [Construct, Log ''Failed to initialize recorder'',
             Log ''Failed to initialize recorder''])
   \<and> (\<not> first_construct_raises env \<and> fst (run env (init_manager t)) \<noteq> Unfinished \<longrightarrow>
        (fst (run env (init_manager t)) = Return Stopped
           \<or> fst (run env (init_manager t)) = Return Failed)
        \<and> (\<exists>h. actions (snd (run env (init_manager t))) = h @
              Shutdown #
              (if final_shutdown_raises (at_cleanup env) then [Log ''Cleanup error'']
               else ExecutorShutdown True #
                 (if executor_shutdown_raises (at_cleanup env)
                  then [Log ''Cleanup error''] else []))))
   \<and> (\<not> first_construct_raises env \<and> (\<exists>e\<in>set (cycles env). stop_called e) \<longrightarrow>
        fst (run env (init_manager t)) \<noteq> Unfinished)"
  using cleanup_returns [of cenv m] run_outcome [of env t, unfolded cleanup_trail_def]
  by blast

text \<open>
  The theorem at a run that is stopped in its second iteration, and at a run whose first
  initialization fails.
\<close>

theorem cleanup_on_exit_witness:
  "fst (run stopped_run (init_manager 0)) \<noteq> Unfinished
   \<and> (\<exists>h. actions (snd (run stopped_run (init_manager 0))) =
          h @ [Shutdown, ExecutorShutdown True])
   \<and> fst (run failed_start (init_manager 0)) = Return InitFailed"
proof -
  note T = cleanup_on_exit [of calm_cleanup "init_manager 0" stopped_run 0]
  note T' = cleanup_on_exit [of calm_cleanup "init_manager 0" failed_start 0]
  have s: "\<not> first_construct_raises stopped_run"
    "\<exists>e\<in>set (cycles stopped_run). stop_called e"
    "at_cleanup stopped_run = calm_cleanup"
    "first_construct_raises failed_start"
    by (simp_all add: stopped_run_def failed_start_def timeout_cycle_def)
  from T T' s show ?thesis by (simp add: calm_cleanup_def)
qed

text \<open>
  C6 as stated fails: after a failed first initialization neither the recorder nor the
  executor is shut down, and when \<open>shutdown\<close> of the recorder raises during
  \<open>cleanup\<close> the executor is not shut down.
\<close>

theorem no_cleanup_after_failed_start:
  "fst (run failed_start (init_manager 0)) = Return InitFailed
   \<and> Shutdown \<notin> set (actions (snd (run failed_start (init_manager 0))))
   \<and> ExecutorShutdown True \<notin> set (actions (snd (run failed_start (init_manager 0))))
   \<and> actions (snd (cleanup (calm_cleanup\<lparr>final_shutdown_raises := True\<rparr>) (started 0))) =
        [Construct, Shutdown, Log ''Cleanup error'']"
  using run_not_started [of failed_start 0]
  by (simp add: failed_start_def cleanup_present cleanup_trail_def started_def
        calm_cleanup_def actions_def)

section \<open>What the loop learns about a unit of work\<close>

text \<open>
  C7, as amended. \<open>RecorderManager.process_text_with_timeout\<close> returns
  \<open>True\<close> exactly when the unit of work completed, and \<open>False\<close> both when it
  timed out and when it raised; the two failures leave the manager in the same state and
  differ in the log line only. In the thread patch the loop does tell the three apart:
  the wait raises the timeout error, or returns \<open>True\<close>, or returns \<open>False\<close>.
\<close>

theorem unit_result_reporting:
  "fst (process_text_with_timeout now outcome m) =
     Return (outcome = Completed \<and> recorder m \<noteq> None)
   \<and> (snd (process_text_with_timeout now TimedOut m))\<lparr>history := []\<rparr> =
     (snd (process_text_with_timeout now Raised m))\<lparr>history := []\<rparr>
   \<and> fst (submit_transcription w v) =
     (if times_out w \<and> p_recorder v \<noteq> None then Raise TimeoutError
      else Return (p_recorder v \<noteq> None \<and> \<not> text_raises w))"
proof -
  have a: "fst (process_text_with_timeout now outcome m) =
     Return (outcome = Completed \<and> recorder m \<noteq> None)"
    by (cases "recorder m = None") (simp_all add: ptwt_absent ptwt_present)
  have b: "(snd (process_text_with_timeout now TimedOut m))\<lparr>history := []\<rparr> =
     (snd (process_text_with_timeout now Raised m))\<lparr>history := []\<rparr>"
    by (cases "recorder m = None") (simp_all add: ptwt_absent ptwt_present)
  obtain v1 where c1: "run_callbacks (callbacks w) (v\<lparr>p_history := p_history v @ [Submit]\<rparr>)
      = (Return (), v1)"
    using run_callbacks_returns [of "callbacks w" "v\<lparr>p_history := p_history v @ [Submit]\<rparr>"]
    by (cases "run_callbacks (callbacks w) (v\<lparr>p_history := p_history v @ [Submit]\<rparr>)") simp
  have c: "fst (submit_transcription w v) =
     (if times_out w \<and> p_recorder v \<noteq> None then Raise TimeoutError
      else Return (p_recorder v \<noteq> None \<and> \<not> text_raises w))"
    using c1
    by (cases "p_recorder v = None")
       (auto simp add: submit_transcription_def transcribe_with_timeout_def recorder_text_def
          prog_defs patch_defs)
  from a b c show ?thesis by blast
qed

text \<open>
  C7 as stated fails for \<open>RecorderManager\<close>: a timeout and an exception give the
  caller the same result and the same state.
\<close>

theorem timeout_and_failure_look_alike:
  "fst (process_text_with_timeout 5 TimedOut (started 0)) =
     fst (process_text_with_timeout 5 Raised (started 0))
   \<and> (snd (process_text_with_timeout 5 TimedOut (started 0)))\<lparr>history := []\<rparr> =
     (snd (process_text_with_timeout 5 Raised (started 0)))\<lparr>history := []\<rparr>"
  by (simp add: ptwt_present started_def)

section \<open>Language validation\<close>

text \<open>
  C8, as amended. \<open>validate_transcription_language\<close> returns \<open>True\<close> when
  no language was detected, when the threshold is not zero and the stored confidence
  \<open>last_confidence\<close> is below it, or when the detected language is the expected one,
  and \<open>False\<close> otherwise; it changes nothing. With expected \<open>en\<close>, detected
  \<open>it\<close> and threshold 0.7 it returns \<open>False\<close> at a stored confidence of 0.9
  and \<open>True\<close> at 0.5.
\<close>

theorem validate_transcription_language_verdict:
  "validate_transcription_language text expected detected threshold d =
     (Return (detected = None \<or> (threshold \<noteq> 0 \<and> last_confidence d < threshold)
              \<or> detected = expected), d)
   \<and> fst (validate_transcription_language text (Some ''en'') (Some ''it'') 0.7
            (d\<lparr>last_confidence := 0.9\<rparr>)) = Return False
   \<and> fst (validate_transcription_language text (Some ''en'') (Some ''it'') 0.7
            (d\<lparr>last_confidence := 0.5\<rparr>)) = Return True"
  by (simp add: validate_transcription_language_def prog_defs)

text \<open>
  C8 as stated fails: with a threshold of zero the confidence is not looked at, so a
  stored confidence below the threshold does not make the result \<open>True\<close>. The
  stored confidence is the one \<open>detect_language\<close> has written after a
  classification whose best score is negative.
\<close>

theorem zero_threshold_skips_confidence:
  "last_confidence (snd (detect_language True log_score_speech () loaded)) < 0
   \<and> fst (validate_transcription_language ''ciao'' (Some ''en'') (Some ''it'') 0
            (snd (detect_language True log_score_speech () loaded))) = Return False"
  by (simp add: validate_transcription_language_def detect_language_def prog_defs
      loaded_def log_score_speech_def)

section \<open>The processing flag\<close>

text \<open>
  C9. Every call of \<open>process_text_with_timeout\<close> returns a boolean (it never
  raises) with \<open>is_processing = False\<close> and \<open>last_activity_time\<close> set to the
  clock reading taken at entry; when there is a recorder, the unit of work is submitted
  while \<open>is_processing\<close> is \<open>True\<close> and \<open>last_activity_time\<close> is that
  reading. In a run of \<open>RecorderManager.run\<close>, \<open>is_processing\<close> is
  \<open>False\<close> at the end, and the only effects that ever see it \<open>True\<close> are the
  submission of a unit of work and the log line of its timeout or failure: between
  units of work it is \<open>False\<close>.
\<close>

theorem processing_flag_bracket:
  "(\<exists>b. fst (process_text_with_timeout now outcome m) = Return b)
   \<and> \<not> is_processing (snd (process_text_with_timeout now outcome m))
   \<and> last_activity_time (snd (process_text_with_timeout now outcome m)) = now
   \<and> (recorder m \<noteq> None \<longrightarrow>
        (Submit, \<lparr>seen_failures = consecutive_failures m, seen_processing = True,
                   seen_activity = now\<rparr>)
          \<in> set (history (snd (process_text_with_timeout now outcome m))))
   \<and> \<not> is_processing (snd (run env (init_manager t)))
   \<and> list_all (\<lambda>ev. seen_processing (snd ev) \<longrightarrow>
          fst ev = Submit \<or> fst ev = Log ''Transcription timed out''
          \<or> fst ev = Log ''Transcription failed'')
        (history (snd (run env (init_manager t))))"
proof -
  have "(\<exists>b. fst (process_text_with_timeout now outcome m) = Return b)
   \<and> \<not> is_processing (snd (process_text_with_timeout now outcome m))
   \<and> last_activity_time (snd (process_text_with_timeout now outcome m)) = now
   \<and> (recorder m \<noteq> None \<longrightarrow>
        (Submit, \<lparr>seen_failures = consecutive_failures m, seen_processing = True,
                   seen_activity = now\<rparr>)
          \<in> set (history (snd (process_text_with_timeout now outcome m))))"
    by (cases "recorder m = None") (auto simp add: ptwt_absent ptwt_present)
  moreover have "\<not> is_processing (snd (run env (init_manager t)))"
    using run_outcome [of env t] by blast
  moreover have "list_all (\<lambda>ev. seen_processing (snd ev) \<longrightarrow>
          fst ev = Submit \<or> fst ev = Log ''Transcription timed out''
          \<or> fst ev = Log ''Transcription failed'')
        (history (snd (run env (init_manager t))))"
    using run_event_ok [of env t] by (simp add: list_all_iff event_ok_def in_unit_def)
  ultimately show ?thesis by blast
qed

text \<open>
  The theorem at a successful unit of work of a freshly started manager, and at the run
  of three timeouts.
\<close>

theorem processing_flag_bracket_witness:
  "(Submit, \<lparr>seen_failures = 0, seen_processing = True, seen_activity = 5\<rparr>)
     \<in> set (history (snd (process_text_with_timeout 5 Completed (started 0))))
   \<and> list_all (\<lambda>ev. \<not> seen_processing (snd ev) \<or> in_unit (fst ev))
        (history (snd (run three_timeouts (init_manager 0))))"
proof -
  note T = processing_flag_bracket [of 5 Completed "started 0" three_timeouts 0]
  have "recorder (started 0) \<noteq> None" "consecutive_failures (started 0) = 0"
    by (simp_all add: started_def init_manager_def)
  with T have "(Submit, \<lparr>seen_failures = 0, seen_processing = True, seen_activity = 5\<rparr>)
     \<in> set (history (snd (process_text_with_timeout 5 Completed (started 0))))"
    by simp
  moreover have "list_all (\<lambda>ev. \<not> seen_processing (snd ev) \<or> in_unit (fst ev))
        (history (snd (run three_timeouts (init_manager 0))))"
    using T by (simp add: list_all_iff in_unit_def)
  ultimately show ?thesis ..
qed

section \<open>Language detection\<close>

text \<open>
  C10. \<open>detect_language\<close> never raises. When the model is not loaded, SpeechBrain
  is not available or the classification raises, it returns \<open>(None, 0.0)\<close> and
  changes nothing. It returns a language code only when the classification succeeded;
  the confidence it returns is then stored in \<open>last_confidence\<close>, and that stored
  value is what a following \<open>validate_transcription_language\<close> compares with the
  threshold.
\<close>

theorem detect_language_total:
  "(\<exists>l c. fst (detect_language available classify audio d) = Return (l, c))
   \<and> (lang_id d = None \<or> \<not> available \<or> classify audio = Fails \<longrightarrow>
        detect_language available classify audio d = (Return (None, 0.0), d))
   \<and> (\<forall>l c. fst (detect_language available classify audio d) = Return (Some l, c) \<longrightarrow>
        (\<exists>code. classify audio = Succeeds (code, c))
        \<and> last_confidence (snd (detect_language available classify audio d)) = c
        \<and> (\<forall>text expected detected threshold.
              fst (validate_transcription_language text expected detected threshold
                     (snd (detect_language available classify audio d)))
              = Return (detected = None \<or> (threshold \<noteq> 0 \<and> c < threshold)
                        \<or> detected = expected)))"
  by (auto simp: detect_language_def validate_transcription_language_def prog_defs
        split: attempt.splits prod.splits)

text \<open>
  The theorem at a loaded model that hears Italian with confidence 0.9, followed by a
  validation against English, and at the same call with SpeechBrain unavailable.
\<close>

theorem detect_language_total_witness:
  "fst (detect_language True italian_speech () loaded) = Return (Some ''it'', 0.9)
   \<and> last_confidence (snd (detect_language True italian_speech () loaded)) = 0.9
   \<and> fst (validate_transcription_language ''ciao'' (Some ''en'') (Some ''it'') 0.7
            (snd (detect_language True italian_speech () loaded))) = Return False
   \<and> detect_language False italian_speech () loaded = (Return (None, 0.0), loaded)"
proof -
  have r: "fst (detect_language True italian_speech () loaded) = Return (Some ''it'', 0.9)"
    by (simp add: detect_language_def prog_defs italian_speech_def loaded_def
          dict_get_def lang_mapping_def)
  note T = detect_language_total [of True italian_speech "()" loaded,
      THEN conjunct2, THEN conjunct2, rule_format, OF r]
  note N = detect_language_total [of False italian_speech "()" loaded,
      THEN conjunct2, THEN conjunct1]
  from T have "last_confidence (snd (detect_language True italian_speech () loaded)) = 0.9"
    by blast
  moreover from T have
    "fst (validate_transcription_language ''ciao'' (Some ''en'') (Some ''it'') 0.7
            (snd (detect_language True italian_speech () loaded)))
     = Return (Some ''it'' = (None :: string option) \<or> ((0.7::real) \<noteq> 0 \<and> (0.9::real) < 0.7)
               \<or> Some ''it'' = Some ''en'')"
    by blast
  moreover from N have "detect_language False italian_speech () loaded
      = (Return (None, 0.0), loaded)"
    by simp
  ultimately show ?thesis using r by simp
qed

end
